theory Spec2Isabelle
  imports Main
begin

section \<open>Text: characters, character classes and regular expressions\<close>

text \<open>
  A Python \<open>str\<close> is a sequence of code points. It is modelled by \<open>string\<close>, each
  \<open>char\<close> standing for the code point with the same number (0 to 255). The classes
  \<open>\s\<close> and \<open>\w\<close> of the \<open>re\<close> module are the Unicode ones, written out on that range.
\<close>

definition is_space :: "char \<Rightarrow> bool" where
  "is_space c = (let n = (of_char c :: nat) in
     (9 \<le> n \<and> n \<le> 13) \<or> (28 \<le> n \<and> n \<le> 32) \<or> n = 133 \<or> n = 160)"

definition is_ascii_alnum :: "char \<Rightarrow> bool" where
  "is_ascii_alnum c = (let n = (of_char c :: nat) in
     (48 \<le> n \<and> n \<le> 57) \<or> (65 \<le> n \<and> n \<le> 90) \<or> (97 \<le> n \<and> n \<le> 122))"

definition is_ascii_alpha :: "char \<Rightarrow> bool" where
  "is_ascii_alpha c = (let n = (of_char c :: nat) in
     (65 \<le> n \<and> n \<le> 90) \<or> (97 \<le> n \<and> n \<le> 122))"

definition is_word :: "char \<Rightarrow> bool" where
  "is_word c = (let n = (of_char c :: nat) in
     is_ascii_alnum c \<or> n = 95 \<or> n = 170 \<or> n = 178 \<or> n = 179 \<or> n = 181 \<or> n = 185 \<or> n = 186
     \<or> (188 \<le> n \<and> n \<le> 190) \<or> (192 \<le> n \<and> n \<le> 214) \<or> (216 \<le> n \<and> n \<le> 246)
     \<or> 248 \<le> n)"

text \<open>
  The two patterns of \<open>extract_contact_info\<close> use literals, greedy repetitions of a
  character class, a greedy optional literal, a negative lookahead over literal
  alternatives and the word boundary. A pattern is the list of its items, in order.
\<close>

datatype rx =
    Lit char
  | Cls "char \<Rightarrow> bool" nat "nat option"
  | Opt string
  | NotAhead "string list"
  | WordB

definition starts_with :: "string \<Rightarrow> string \<Rightarrow> nat \<Rightarrow> bool" where
  "starts_with w s i = (take (length w) (drop i s) = w)"

definition word_boundary :: "string \<Rightarrow> nat \<Rightarrow> bool" where
  "word_boundary s i =
     ((0 < i \<and> i \<le> length s \<and> is_word (s ! (i - 1))) \<noteq> (i < length s \<and> is_word (s ! i)))"

definition run_len :: "(char \<Rightarrow> bool) \<Rightarrow> nat option \<Rightarrow> string \<Rightarrow> nat \<Rightarrow> nat" where
  "run_len p hi s i = (let n = length (takeWhile p (drop i s)) in
     case hi of None \<Rightarrow> n | Some h \<Rightarrow> min h n)"

fun first_some :: "'a option list \<Rightarrow> 'a option" where
  "first_some [] = None"
| "first_some (None # xs) = first_some xs"
| "first_some (Some x # xs) = Some x"

text \<open>
  \<open>rx_match rs s i\<close> is the end of the match of \<open>rs\<close> that starts at index \<open>i\<close> of
  \<open>s\<close>, found as the backtracking matcher finds it: a greedy item takes as much as it
  can and gives back one character at a time while the rest of the pattern fails.
\<close>

fun rx_match :: "rx list \<Rightarrow> string \<Rightarrow> nat \<Rightarrow> nat option" where
  "rx_match [] s i = Some i"
| "rx_match (Lit c # rs) s i =
     (if i < length s \<and> s ! i = c then rx_match rs s (Suc i) else None)"
| "rx_match (Cls p lo hi # rs) s i =
     first_some (map (\<lambda>k. rx_match rs s (i + k)) (rev [lo..<Suc (run_len p hi s i)]))"
| "rx_match (Opt w # rs) s i =
     (if starts_with w s i
      then (case rx_match rs s (i + length w) of Some j \<Rightarrow> Some j | None \<Rightarrow> rx_match rs s i)
      else rx_match rs s i)"
| "rx_match (NotAhead ws # rs) s i =
     (if \<exists>w \<in> set ws. starts_with w s i then None else rx_match rs s i)"
| "rx_match (WordB # rs) s i = (if word_boundary s i then rx_match rs s i else None)"

text \<open>\<open>re.search\<close>: the match at the leftmost start index that has one; \<open>group(0)\<close>.\<close>

definition rx_search :: "rx list \<Rightarrow> string \<Rightarrow> (nat \<times> nat) option" where
  "rx_search rs s =
     first_some (map (\<lambda>i. case rx_match rs s i of None \<Rightarrow> None | Some j \<Rightarrow> Some (i, j))
                     [0..<Suc (length s)])"

definition group0 :: "string \<Rightarrow> nat \<times> nat \<Rightarrow> string" where
  "group0 s m = take (snd m - fst m) (drop (fst m) s)"

section \<open>extract_contact_info\<close>

definition email_local_char :: "char \<Rightarrow> bool" where
  "email_local_char c = (is_ascii_alnum c \<or> c \<in> set ''._%+-'')"

definition email_domain_char :: "char \<Rightarrow> bool" where
  "email_domain_char c = (is_ascii_alnum c \<or> c \<in> set ''.-'')"

definition email_tld_char :: "char \<Rightarrow> bool" where
  "email_tld_char c = (is_ascii_alpha c \<or> c = CHR ''|'')"

definition url_char :: "char \<Rightarrow> bool" where
  "url_char c = (\<not> is_space c \<and> c \<noteq> CHR ''<'' \<and> c \<noteq> CHR ''>'' \<and> c \<noteq> CHR 0x22)"

definition email_pattern :: "rx list" where
  "email_pattern =
     [WordB, Cls email_local_char 1 None, Lit CHR ''@'', Cls email_domain_char 1 None,
      Lit CHR ''.'', Cls email_tld_char 2 (Some 7), WordB]"

definition website_pattern :: "rx list" where
  "website_pattern =
     [Lit CHR ''h'', Lit CHR ''t'', Lit CHR ''t'', Lit CHR ''p'', Opt ''s'',
      Lit CHR '':'', Lit CHR ''/'', Lit CHR ''/'', Opt ''www.'',
      NotAhead [''youtube.com'', ''youtu.be''], Cls url_char 1 None]"

record contact_info =
  email :: string
  website :: string

definition extract_contact_info :: "string \<Rightarrow> contact_info" where
  "extract_contact_info description =
     (let email = rx_search email_pattern description;
          website = rx_search website_pattern description
      in \<lparr> email = (case email of Some m \<Rightarrow> group0 description m | None \<Rightarrow> ''N/A''),
           website = (case website of Some m \<Rightarrow> group0 description m | None \<Rightarrow> ''N/A'') \<rparr>)"


section \<open>Values, exceptions and the operations of the language\<close>

text \<open>
  What the platform's client returns is parsed JSON: \<open>None\<close>, booleans, integers,
  strings, lists and dictionaries with string keys (floating-point numbers are left out).
  A dictionary is the list of its bindings, looked up with \<open>map_of\<close>.
\<close>

datatype json =
    JNull
  | JBool bool
  | JInt int
  | JStr string
  | JArr "json list"
  | JObj "(string \<times> json) list"

datatype exn =
    HttpError string
  | KeyError
  | IndexError
  | TypeError
  | AttributeError
  | ValueError
  | OtherError string

definition and_then :: "exn + 'a \<Rightarrow> ('a \<Rightarrow> exn + 'b) \<Rightarrow> exn + 'b" where
  "and_then r f = (case r of Inl e \<Rightarrow> Inl e | Inr v \<Rightarrow> f v)"

text \<open>\<open>d.get(k, dflt)\<close>: only a dictionary has the method.\<close>

definition py_get :: "json \<Rightarrow> string \<Rightarrow> json \<Rightarrow> exn + json" where
  "py_get d k dflt =
     (case d of
        JObj kvs \<Rightarrow> Inr (case map_of kvs k of Some v \<Rightarrow> v | None \<Rightarrow> dflt)
      | _ \<Rightarrow> Inl AttributeError)"

text \<open>\<open>d[k]\<close> with a string key.\<close>

definition py_item :: "json \<Rightarrow> string \<Rightarrow> exn + json" where
  "py_item d k =
     (case d of
        JObj kvs \<Rightarrow> (case map_of kvs k of Some v \<Rightarrow> Inr v | None \<Rightarrow> Inl KeyError)
      | _ \<Rightarrow> Inl TypeError)"

text \<open>\<open>d[0]\<close>.\<close>

definition py_first :: "json \<Rightarrow> exn + json" where
  "py_first d =
     (case d of
        JArr xs \<Rightarrow> (case xs of [] \<Rightarrow> Inl IndexError | x # _ \<Rightarrow> Inr x)
      | JStr cs \<Rightarrow> (case cs of [] \<Rightarrow> Inl IndexError | c # _ \<Rightarrow> Inr (JStr [c]))
      | JObj kvs \<Rightarrow> Inl KeyError
      | _ \<Rightarrow> Inl TypeError)"

text \<open>Truth value of an object, as \<open>not x\<close> and \<open>if x\<close> test it.\<close>

definition py_truthy :: "json \<Rightarrow> bool" where
  "py_truthy v =
     (case v of
        JNull \<Rightarrow> False
      | JBool b \<Rightarrow> b
      | JInt i \<Rightarrow> i \<noteq> 0
      | JStr cs \<Rightarrow> cs \<noteq> []
      | JArr xs \<Rightarrow> xs \<noteq> []
      | JObj kvs \<Rightarrow> kvs \<noteq> [])"

text \<open>
  \<open>int(x)\<close>. For a string: surrounding whitespace is dropped, then an optional sign
  and decimal digits, single underscores allowed between digits. (The interpreter's
  limit on the number of digits of such a string is not modelled.)
\<close>

definition is_int_space :: "char \<Rightarrow> bool" where
  "is_int_space c = (let n = (of_char c :: nat) in
     (9 \<le> n \<and> n \<le> 13) \<or> n = 32 \<or> n = 133 \<or> n = 160)"

definition is_digit :: "char \<Rightarrow> bool" where
  "is_digit c = (let n = (of_char c :: nat) in 48 \<le> n \<and> n \<le> 57)"

definition digit_val :: "char \<Rightarrow> int" where
  "digit_val c = int (of_char c) - 48"

fun parse_digits :: "int \<Rightarrow> string \<Rightarrow> int option" where
  "parse_digits acc [] = Some acc"
| "parse_digits acc [c] = (if is_digit c then Some (acc * 10 + digit_val c) else None)"
| "parse_digits acc (c # d # cs) =
     (if is_digit c then parse_digits (acc * 10 + digit_val c) (d # cs)
      else if c = CHR ''_'' \<and> is_digit d then parse_digits acc (d # cs)
      else None)"

definition parse_unsigned :: "string \<Rightarrow> int option" where
  "parse_unsigned s =
     (case s of [] \<Rightarrow> None | c # _ \<Rightarrow> if is_digit c then parse_digits 0 s else None)"

definition int_of_text :: "string \<Rightarrow> int option" where
  "int_of_text s =
     (let t = rev (dropWhile is_int_space (rev (dropWhile is_int_space s)))
      in case t of
           [] \<Rightarrow> None
         | c # cs \<Rightarrow>
             if c = CHR ''-'' then map_option uminus (parse_unsigned cs)
             else if c = CHR ''+'' then parse_unsigned cs
             else parse_unsigned t)"

definition py_int :: "json \<Rightarrow> exn + int" where
  "py_int v =
     (case v of
        JInt i \<Rightarrow> Inr i
      | JBool b \<Rightarrow> Inr (if b then 1 else 0)
      | JStr s \<Rightarrow> (case int_of_text s of Some i \<Rightarrow> Inr i | None \<Rightarrow> Inl ValueError)
      | _ \<Rightarrow> Inl TypeError)"

section \<open>The collaborators and the effects of a run\<close>

text \<open>
  The two requests of the platform's client are outside the program. A world gives the
  outcome of the \<open>n\<close>-th search request and of the \<open>n\<close>-th channel request (counted from
  0), each either an exception or the parsed response. Of a search response the program
  reads \<open>items\<close>, each item's \<open>snippet\<close> and its \<open>channelId\<close>; a channel identifier is a
  \<open>str\<close>, as \<open>get_channel_info\<close> declares.
\<close>

type_synonym search_item = "string \<rightharpoonup> (string \<rightharpoonup> string)"
type_synonym search_response = "string \<rightharpoonup> search_item list"

record world =
  search_list :: "nat \<Rightarrow> string \<Rightarrow> exn + search_response"
  channels_list :: "nat \<Rightarrow> string \<Rightarrow> exn + json"

datatype log_entry =
    Warning string
  | Error string exn

text \<open>
  The effects that outlive an exception: the log (an error entry keeps the text before
  \<open>str(e)\<close> and the exception), the number of search requests made, and the identifiers
  of the channel requests made, in order.
\<close>

record effects =
  log :: "log_entry list"
  search_calls :: nat
  info_calls :: "string list"

section \<open>get_channel_info\<close>

text \<open>The body of the \<open>try\<close>: the result and what it logs, or the exception raised.\<close>

definition get_channel_info_try :: "exn + json \<Rightarrow> string \<Rightarrow> exn + (json \<times> log_entry list)" where
  "get_channel_info_try executed channel_id =
     and_then executed (\<lambda>response.
     and_then (py_get response ''items'' JNull) (\<lambda>found.
     if \<not> py_truthy found
     then Inr (JObj [], [Warning (''No information found for channel '' @ channel_id)])
     else
       and_then (and_then (py_item response ''items'') py_first) (\<lambda>channel_data.
       and_then (py_item channel_data ''snippet'') (\<lambda>snippet.
       and_then (py_item channel_data ''statistics'') (\<lambda>statistics.
       and_then (and_then (py_get statistics ''subscriberCount'' (JInt 0)) py_int) (\<lambda>subscriber_count.
       if subscriber_count > 50000 then Inr (JObj [], [])
       else
         and_then (py_get snippet ''title'' JNull) (\<lambda>title.
         and_then (py_get snippet ''description'' (JStr [])) (\<lambda>description.
         and_then (py_get snippet ''country'' (JStr ''N/A'')) (\<lambda>country.
         and_then (py_get snippet ''publishedAt'' JNull) (\<lambda>publishedAt.
         and_then (py_get snippet ''customUrl''
                     (JStr (''https://youtube.com/channel/'' @ channel_id))) (\<lambda>customUrl.
         Inr (JObj [(''title'', title), (''description'', description),
                    (''country'', country), (''publishedAt'', publishedAt),
                    (''customUrl'', customUrl), (''statistics'', statistics)], []))))))))))))"

definition get_channel_info :: "world \<Rightarrow> string \<Rightarrow> effects \<Rightarrow> json \<times> effects" where
  "get_channel_info w channel_id fx =
     (let executed = channels_list w (length (info_calls fx)) channel_id;
          fx1 = fx\<lparr>info_calls := info_calls fx @ [channel_id]\<rparr>
      in case get_channel_info_try executed channel_id of
           Inr (info, lines) \<Rightarrow> (info, fx1\<lparr>log := log fx1 @ lines\<rparr>)
         | Inl (HttpError m) \<Rightarrow>
             (JObj [], fx1\<lparr>log := log fx1 @
                [Error (''HTTP error getting channel info for '' @ channel_id @ '': '') (HttpError m)]\<rparr>)
         | Inl e \<Rightarrow>
             (JObj [], fx1\<lparr>log := log fx1 @
                [Error (''Error getting channel info for '' @ channel_id @ '': '') e]\<rparr>))"

section \<open>get_channels_from_country\<close>

record channel_record =
  channelId :: string
  name :: json
  url :: json
  country :: json
  createDate :: json
  subscribers :: int
  totalViews :: int
  totalVideos :: int
  email :: string
  website :: string

text \<open>The locals of the operation, and the effects so far.\<close>

record run_state =
  channels :: "channel_record list"
  seen_channels :: "string set"
  fx :: effects

text \<open>\<open>item['snippet']['channelId']\<close>\<close>

definition item_channel_id :: "search_item \<Rightarrow> exn + string" where
  "item_channel_id item =
     (case item ''snippet'' of
        None \<Rightarrow> Inl KeyError
      | Some snippet \<Rightarrow> (case snippet ''channelId'' of None \<Rightarrow> Inl KeyError | Some c \<Rightarrow> Inr c))"

text \<open>\<open>re.search\<close> accepts a string only.\<close>

definition contact_of :: "json \<Rightarrow> exn + contact_info" where
  "contact_of description =
     (case description of JStr d \<Rightarrow> Inr (extract_contact_info d) | _ \<Rightarrow> Inl TypeError)"

text \<open>The record appended for an admitted channel (the body of \<open>if channel_info\<close>).\<close>

definition make_record :: "string \<Rightarrow> json \<Rightarrow> exn + channel_record" where
  "make_record channel_id channel_info =
     and_then (and_then (py_get channel_info ''description'' (JStr [])) contact_of) (\<lambda>contact.
     and_then (py_get channel_info ''statistics'' (JObj [])) (\<lambda>statistics.
     and_then (py_get channel_info ''title'' (JStr ''N/A'')) (\<lambda>title.
     and_then (py_get channel_info ''customUrl'' JNull) (\<lambda>customUrl.
     and_then (py_get channel_info ''country'' (JStr ''N/A'')) (\<lambda>country_v.
     and_then (py_get channel_info ''publishedAt'' (JStr ''N/A'')) (\<lambda>publishedAt.
     and_then (and_then (py_get statistics ''subscriberCount'' (JInt 0)) py_int) (\<lambda>subscriberCount.
     and_then (and_then (py_get statistics ''viewCount'' (JInt 0)) py_int) (\<lambda>viewCount.
     and_then (and_then (py_get statistics ''videoCount'' (JInt 0)) py_int) (\<lambda>videoCount.
     Inr \<lparr> channelId = channel_id, name = title, url = customUrl, country = country_v,
           createDate = publishedAt, subscribers = subscriberCount, totalViews = viewCount,
           totalVideos = videoCount, email = contact_info.email contact,
           website = contact_info.website contact \<rparr>)))))))))"

text \<open>
  The \<open>for\<close> loop over the items of one response. The result is the exception that left
  the loop, if any, and the state reached; \<open>break\<close> ends the loop without one.
\<close>

fun for_items :: "world \<Rightarrow> search_item list \<Rightarrow> run_state \<Rightarrow> exn option \<times> run_state" where
  "for_items w [] st = (None, st)"
| "for_items w (item # rest) st =
     (case item_channel_id item of
        Inl e \<Rightarrow> (Some e, st)
      | Inr channel_id \<Rightarrow>
          if channel_id \<in> seen_channels st then for_items w rest st
          else
            (let st1 = st\<lparr>seen_channels := insert channel_id (seen_channels st)\<rparr>;
                 (channel_info, fx1) = get_channel_info w channel_id (fx st1);
                 st2 = st1\<lparr>fx := fx1\<rparr>
             in case (if py_truthy channel_info
                      then map_sum id (\<lambda>r. st2\<lparr>channels := channels st2 @ [r]\<rparr>)
                             (make_record channel_id channel_info)
                      else Inr st2) of
                  Inl e \<Rightarrow> (Some e, st2)
                | Inr st3 \<Rightarrow>
                    if length (channels st3) \<ge> 50 then (None, st3)
                    else for_items w rest st3))"

text \<open>
  The \<open>while\<close> loop. It has no bound of its own, so it is a partial function: \<open>None\<close>
  means that the loop never ends.
\<close>

definition response_items :: "search_response \<Rightarrow> search_item list" where
  "response_items response = (case response ''items'' of Some xs \<Rightarrow> xs | None \<Rightarrow> [])"

definition searched :: "run_state \<Rightarrow> run_state" where
  "searched st = st\<lparr>fx := (fx st)\<lparr>search_calls := Suc (search_calls (fx st))\<rparr>\<rparr>"

partial_function (option) while_loop ::
  "world \<Rightarrow> string \<Rightarrow> run_state \<Rightarrow> (exn option \<times> run_state) option" where
  "while_loop w country_code st =
     (if length (channels st) < 50
      then (case search_list w (search_calls (fx st)) country_code of
              Inl e \<Rightarrow> Some (Some e, searched st)
            | Inr response \<Rightarrow>
                (case for_items w (response_items response) (searched st) of
                   (Some e, st') \<Rightarrow> Some (Some e, st')
                 | (None, st') \<Rightarrow> while_loop w country_code st'))
      else Some (None, st))"

declare while_loop.simps [code]

definition no_effects :: effects where
  "no_effects = \<lparr> log = [], search_calls = 0, info_calls = [] \<rparr>"

definition start :: run_state where
  "start = \<lparr> channels = [], seen_channels = {}, fx = no_effects \<rparr>"

text \<open>
  The operation: the list returned and the effects of the whole run, or \<open>None\<close> when
  it does not return.
\<close>

definition get_channels_from_country ::
  "world \<Rightarrow> string \<Rightarrow> (channel_record list \<times> effects) option" where
  "get_channels_from_country w country_code =
     (case while_loop w country_code start of
        None \<Rightarrow> None
      | Some (None, st) \<Rightarrow> Some (channels st, fx st)
      | Some (Some e, st) \<Rightarrow>
          Some ([], (fx st)\<lparr>log := log (fx st) @
                  [Error (''Error getting channels from '' @ country_code @ '': '') e]\<rparr>))"

section \<open>What a pattern matches\<close>

text \<open>
  \<open>rx_matches rs s i j\<close>: the characters of \<open>s\<close> from index \<open>i\<close> up to \<open>j\<close> are a match
  of the pattern \<open>rs\<close> in \<open>s\<close>. This is the meaning of a pattern, with no order among
  the alternatives; \<open>rx_match\<close> is the search for one.
\<close>

fun rx_matches :: "rx list \<Rightarrow> string \<Rightarrow> nat \<Rightarrow> nat \<Rightarrow> bool" where
  "rx_matches [] s i j = (i = j)"
| "rx_matches (Lit c # rs) s i j = (i < length s \<and> s ! i = c \<and> rx_matches rs s (Suc i) j)"
| "rx_matches (Cls p lo hi # rs) s i j =
     (\<exists>k \<in> {lo..length s - i}. (case hi of None \<Rightarrow> True | Some h \<Rightarrow> k \<le> h) \<and>
        (\<forall>t < k. p (s ! (i + t))) \<and> rx_matches rs s (i + k) j)"
| "rx_matches (Opt w # rs) s i j =
     ((starts_with w s i \<and> rx_matches rs s (i + length w) j) \<or> rx_matches rs s i j)"
| "rx_matches (NotAhead ws # rs) s i j =
     ((\<forall>w \<in> set ws. \<not> starts_with w s i) \<and> rx_matches rs s i j)"
| "rx_matches (WordB # rs) s i j = (word_boundary s i \<and> rx_matches rs s i j)"

section \<open>The loop, round by round\<close>

text \<open>
  \<open>while_rounds n\<close> runs at most \<open>n\<close> rounds of the \<open>while\<close> loop: \<open>Inl\<close> is the way the
  loop ended within them, \<open>Inr\<close> is the state after \<open>n\<close> rounds of a loop still running.
\<close>

fun while_rounds ::
  "nat \<Rightarrow> world \<Rightarrow> string \<Rightarrow> run_state \<Rightarrow> (exn option \<times> run_state) + run_state" where
  "while_rounds 0 w country_code st = Inr st"
| "while_rounds (Suc n) w country_code st =
     (if length (channels st) < 50
      then (case search_list w (search_calls (fx st)) country_code of
              Inl e \<Rightarrow> Inl (Some e, searched st)
            | Inr response \<Rightarrow>
                (case for_items w (response_items response) (searched st) of
                   (Some e, st') \<Rightarrow> Inl (Some e, st')
                 | (None, st') \<Rightarrow> while_rounds n w country_code st'))
      else Inl (None, st))"

definition state_of :: "(exn option \<times> run_state) + run_state \<Rightarrow> run_state" where
  "state_of out = (case out of Inl (res, st) \<Rightarrow> st | Inr st \<Rightarrow> st)"

section \<open>Names for the statements\<close>

text \<open>
  The dictionary \<open>get_channel_info\<close> returns for an admitted channel whose snippet has
  the bindings \<open>s\<close>, and the value \<open>statistics.get(k, 0)\<close> of a statistics dictionary.
\<close>

definition info_dict :: "string \<Rightarrow> (string \<times> json) list \<Rightarrow> json \<Rightarrow> json" where
  "info_dict channel_id s statistics =
     JObj [(''title'', case map_of s ''title'' of Some x \<Rightarrow> x | None \<Rightarrow> JNull),
           (''description'', case map_of s ''description'' of Some x \<Rightarrow> x | None \<Rightarrow> JStr []),
           (''country'', case map_of s ''country'' of Some x \<Rightarrow> x | None \<Rightarrow> JStr ''N/A''),
           (''publishedAt'', case map_of s ''publishedAt'' of Some x \<Rightarrow> x | None \<Rightarrow> JNull),
           (''customUrl'', case map_of s ''customUrl'' of Some x \<Rightarrow> x
                           | None \<Rightarrow> JStr (''https://youtube.com/channel/'' @ channel_id)),
           (''statistics'', statistics)]"

definition stat :: "(string \<times> json) list \<Rightarrow> string \<Rightarrow> json" where
  "stat st k = (case map_of st k of Some x \<Rightarrow> x | None \<Rightarrow> JInt 0)"

text \<open>The state once a new identifier is in the seen set and its channel request is made.\<close>

definition admitted :: "string \<Rightarrow> effects \<Rightarrow> run_state \<Rightarrow> run_state" where
  "admitted channel_id fx1 st = st\<lparr>seen_channels := insert channel_id (seen_channels st), fx := fx1\<rparr>"

text \<open>The invariants of the loop.\<close>

definition records_ok :: "run_state \<Rightarrow> bool" where
  "records_ok st =
     (distinct (map channelId (channels st)) \<and> channelId ` set (channels st) \<subseteq> seen_channels st
      \<and> (\<forall>r \<in> set (channels st). subscribers r \<le> 50000))"

definition calls_ok :: "run_state \<Rightarrow> bool" where
  "calls_ok st = (distinct (info_calls (fx st)) \<and> set (info_calls (fx st)) \<subseteq> seen_channels st)"

section \<open>Example worlds\<close>

text \<open>
  A search hit and a page of hits; the response to a channel request with one item; a
  channel with 100 subscribers.
\<close>

definition hit :: "string \<Rightarrow> search_item" where
  "hit c = [''snippet'' \<mapsto> [''channelId'' \<mapsto> c]]"

definition page :: "string list \<Rightarrow> search_response" where
  "page cs = [''items'' \<mapsto> map hit cs]"

definition channel_response :: "json \<Rightarrow> json \<Rightarrow> json" where
  "channel_response snippet statistics =
     JObj [(''items'', JArr [JObj [(''snippet'', snippet), (''statistics'', statistics)]])]"

definition small_channel :: json where
  "small_channel =
     channel_response (JObj [(''title'', JStr ''T''), (''description'', JStr ''mail a@b.com'')])
       (JObj [(''subscriberCount'', JStr ''100''), (''viewCount'', JStr ''2000''),
              (''videoCount'', JStr ''7'')])"

text \<open>The search returns the same three channels on every request; each is admitted.\<close>

definition same3_world :: world where
  "same3_world = \<lparr> search_list = (\<lambda>n cc. Inr (page [''c1'', ''c2'', ''c3''])),
                    channels_list = (\<lambda>n c. Inr small_channel) \<rparr>"

text \<open>The search has nothing to return, on every request.\<close>

definition empty_world :: world where
  "empty_world = \<lparr> search_list = (\<lambda>n cc. Inr (page [])),
                    channels_list = (\<lambda>n c. Inr small_channel) \<rparr>"

text \<open>The first search returns three channels, every later one fails.\<close>

definition failing_world :: world where
  "failing_world = \<lparr> search_list = (\<lambda>n cc. if n = 0 then Inr (page [''c1'', ''c2'', ''c3''])
                                              else Inl (HttpError ''quota exceeded'')),
                      channels_list = (\<lambda>n c. Inr small_channel) \<rparr>"

text \<open>One channel, whose view count is not a number.\<close>

definition bad_views_world :: world where
  "bad_views_world =
     \<lparr> search_list = (\<lambda>n cc. Inr (page [''c1''])),
       channels_list = (\<lambda>n c. Inr (channel_response (JObj [])
          (JObj [(''subscriberCount'', JStr ''100''), (''viewCount'', JStr ''n/a'')]))) \<rparr>"

text \<open>One channel, whose snippet and statistics are empty.\<close>

definition untitled_world :: world where
  "untitled_world =
     \<lparr> search_list = (\<lambda>n cc. Inr (page [''c1''])),
       channels_list = (\<lambda>n c. Inr (channel_response (JObj []) (JObj []))) \<rparr>"

text \<open>One channel on every page, with 60000 subscribers.\<close>

definition rejecting_world :: world where
  "rejecting_world =
     \<lparr> search_list = (\<lambda>n cc. Inr (page [''c1''])),
       channels_list = (\<lambda>n c. Inr (channel_response (JObj [])
          (JObj [(''subscriberCount'', JStr ''60000'')]))) \<rparr>"

text \<open>The channel request fails.\<close>

definition offline_world :: world where
  "offline_world =
     \<lparr> search_list = (\<lambda>n cc. Inr (page [''c1''])),
       channels_list = (\<lambda>n c. Inl (HttpError ''timeout'')) \<rparr>"

section \<open>The matcher finds a match exactly when there is one\<close>

lemma first_some_SomeD: "first_some xs = Some y \<Longrightarrow> Some y \<in> set xs"
  by (induction xs rule: first_some.induct) auto

lemma first_some_None_iff: "first_some xs = None \<longleftrightarrow> (\<forall>x \<in> set xs. x = None)"
  by (induction xs rule: first_some.induct) auto

lemma run_len_iff:
  "k \<le> run_len p hi s i \<longleftrightarrow>
     (k \<le> length s - i \<and> (case hi of None \<Rightarrow> True | Some h \<Rightarrow> k \<le> h) \<and> (\<forall>t < k. p (s ! (i + t))))"
proof -
  have tw: "k \<le> length (takeWhile p (drop i s)) \<longleftrightarrow> (k \<le> length s - i \<and> (\<forall>t < k. p (s ! (i + t))))"
  proof
    assume a: "k \<le> length (takeWhile p (drop i s))"
    have "length (takeWhile p (drop i s)) \<le> length (drop i s)" by (rule length_takeWhile_le)
    then have k: "k \<le> length s - i" using a by simp
    have "\<forall>t < k. p (s ! (i + t))"
    proof (intro allI impI)
      fix t assume "t < k"
      then have tl: "t < length (takeWhile p (drop i s))" using a by simp
      then have "takeWhile p (drop i s) ! t \<in> set (takeWhile p (drop i s))" by simp
      then have "p (takeWhile p (drop i s) ! t)" by (rule set_takeWhileD[THEN conjunct2])
      moreover have "takeWhile p (drop i s) ! t = drop i s ! t" using tl by (rule takeWhile_nth)
      ultimately show "p (s ! (i + t))" using k \<open>t < k\<close> by simp
    qed
    with k show "k \<le> length s - i \<and> (\<forall>t < k. p (s ! (i + t)))" by simp
  next
    assume a: "k \<le> length s - i \<and> (\<forall>t < k. p (s ! (i + t)))"
    show "k \<le> length (takeWhile p (drop i s))"
    proof (rule length_takeWhile_less_P_nth)
      fix t assume t: "t < k"
      with a have "i + t < length s" by linarith
      then have "drop i s ! t = s ! (i + t)" by simp
      with a t show "p (drop i s ! t)" by simp
    next
      show "k \<le> length (drop i s)" using a by simp
    qed
  qed
  show ?thesis unfolding run_len_def Let_def using tw by (cases hi) auto
qed

lemma rx_match_sound: "rx_match rs s i = Some j \<Longrightarrow> rx_matches rs s i j"
proof (induction rs s i rule: rx_match.induct)
  case (3 p lo hi rs s i)
  from "3.prems" have "Some j \<in> set (map (\<lambda>k. rx_match rs s (i + k)) (rev [lo..<Suc (run_len p hi s i)]))"
    by (auto dest: first_some_SomeD)
  then obtain k where k: "lo \<le> k" "k \<le> run_len p hi s i" "rx_match rs s (i + k) = Some j"
    by auto
  from k(1,2) have "k \<in> set (rev [lo..<Suc (run_len p hi s i)])" by auto
  then have "rx_matches rs s (i + k) j" using "3.IH" k(3) by blast
  with k show ?case using run_len_iff[of k p hi s i] by auto
qed (auto split: if_splits option.splits)

lemma rx_match_complete: "rx_matches rs s i j \<Longrightarrow> rx_match rs s i \<noteq> None"
proof (induction rs s i rule: rx_match.induct)
  case (3 p lo hi rs s i)
  from "3.prems" obtain k where k: "lo \<le> k" "k \<le> length s - i"
      "(case hi of None \<Rightarrow> True | Some h \<Rightarrow> k \<le> h)" "\<forall>t < k. p (s ! (i + t))" "rx_matches rs s (i + k) j"
    by auto
  then have kr: "k \<le> run_len p hi s i" using run_len_iff[of k p hi s i] by simp
  with k(1) have mem: "k \<in> set (rev [lo..<Suc (run_len p hi s i)])" by auto
  then have "rx_match rs s (i + k) \<noteq> None" using "3.IH" k(5) by blast
  then show ?case using mem by (auto simp: first_some_None_iff)
qed (auto split: if_splits option.splits)

lemma rx_search_None_iff: "rx_search rs s = None \<longleftrightarrow> (\<forall>i \<le> length s. \<forall>j. \<not> rx_matches rs s i j)"
proof
  assume a: "rx_search rs s = None"
  show "\<forall>i \<le> length s. \<forall>j. \<not> rx_matches rs s i j"
  proof (intro allI impI notI)
    fix i j assume i: "i \<le> length s" and m: "rx_matches rs s i j"
    from a i have "rx_match rs s i = None"
      by (auto simp: rx_search_def first_some_None_iff split: option.splits)
    with m show False using rx_match_complete by blast
  qed
next
  assume a: "\<forall>i \<le> length s. \<forall>j. \<not> rx_matches rs s i j"
  show "rx_search rs s = None"
    unfolding rx_search_def first_some_None_iff
    using a rx_match_sound by (fastforce split: option.splits)
qed


section \<open>Contact extraction\<close>

text \<open>
  C6. \<open>extract_contact_info\<close> is a total function of the description: on every string
  it returns a pair of strings and raises nothing. When no part of the description
  matches the email pattern the email is the sentinel \<open>N/A\<close>, and likewise and separately
  for the website. On \<open>contact me at a@b.com\<close> the email is \<open>a@b.com\<close> and the website
  is \<open>N/A\<close>.
\<close>

theorem extract_contact_info_total_sentinel:
  "(\<exists>c. contact_of (JStr d) = Inr c \<and> c = extract_contact_info d)
   \<and> ((\<forall>i \<le> length d. \<forall>j. \<not> rx_matches email_pattern d i j)
          \<longrightarrow> contact_info.email (extract_contact_info d) = ''N/A'')
   \<and> ((\<forall>i \<le> length d. \<forall>j. \<not> rx_matches website_pattern d i j)
          \<longrightarrow> contact_info.website (extract_contact_info d) = ''N/A'')
   \<and> extract_contact_info ''contact me at a@b.com''
         = \<lparr> contact_info.email = ''a@b.com'', contact_info.website = ''N/A'' \<rparr>"
proof -
  have total: "\<exists>c. contact_of (JStr d) = Inr c \<and> c = extract_contact_info d"
    by (simp add: contact_of_def)
  have no_email: "(\<forall>i \<le> length d. \<forall>j. \<not> rx_matches email_pattern d i j)
      \<longrightarrow> contact_info.email (extract_contact_info d) = ''N/A''"
  proof
    assume "\<forall>i \<le> length d. \<forall>j. \<not> rx_matches email_pattern d i j"
    then have "rx_search email_pattern d = None" using rx_search_None_iff by blast
    then show "contact_info.email (extract_contact_info d) = ''N/A''"
      by (simp add: extract_contact_info_def Let_def)
  qed
  have no_website: "(\<forall>i \<le> length d. \<forall>j. \<not> rx_matches website_pattern d i j)
      \<longrightarrow> contact_info.website (extract_contact_info d) = ''N/A''"
  proof
    assume "\<forall>i \<le> length d. \<forall>j. \<not> rx_matches website_pattern d i j"
    then have "rx_search website_pattern d = None" using rx_search_None_iff by blast
    then show "contact_info.website (extract_contact_info d) = ''N/A''"
      by (simp add: extract_contact_info_def Let_def)
  qed
  have example: "extract_contact_info ''contact me at a@b.com''
      = \<lparr> contact_info.email = ''a@b.com'', contact_info.website = ''N/A'' \<rparr>"
    by code_simp
  from total no_email no_website example show ?thesis by blast
qed

text \<open>
  A description with no \<open>@\<close> and no \<open>http\<close> has no match of either pattern: both fields
  are the sentinel.
\<close>

theorem extract_contact_info_total_sentinel_witness:
  "contact_info.email (extract_contact_info ''hello'') = ''N/A''
   \<and> contact_info.website (extract_contact_info ''hello'') = ''N/A''
   \<and> rx_search email_pattern ''hello'' = None
   \<and> rx_search website_pattern ''hello'' = None"
proof -
  have e: "rx_search email_pattern ''hello'' = None" by code_simp
  have w: "rx_search website_pattern ''hello'' = None" by code_simp
  have ne: "\<forall>i \<le> length ''hello''. \<forall>j. \<not> rx_matches email_pattern ''hello'' i j"
    using e rx_search_None_iff[of email_pattern "''hello''"] by blast
  have nw: "\<forall>i \<le> length ''hello''. \<forall>j. \<not> rx_matches website_pattern ''hello'' i j"
    using w rx_search_None_iff[of website_pattern "''hello''"] by blast
  show ?thesis
    using extract_contact_info_total_sentinel[of "''hello''"] ne nw e w by blast
qed

text \<open>
  C2. The website pattern is meant to skip the platform's own addresses, with or
  without a leading \<open>www.\<close>. With the prefix it does not: when the lookahead fails after
  \<open>www.\<close>, the matcher gives the optional prefix back and tests the lookahead at
  \<open>www.youtube.com\<close>, where it holds. Without the prefix the address of the platform
  is skipped; with it, it is returned.
\<close>

theorem website_www_prefix_not_excluded:
  "contact_info.website (extract_contact_info ''see https://youtube.com/channel/x'') = ''N/A''
   \<and> contact_info.website (extract_contact_info ''see https://www.youtube.com/channel/x'')
       = ''https://www.youtube.com/channel/x''"
  by code_simp


section \<open>Reading a channel response\<close>

lemma and_then_Inr_iff: "and_then r f = Inr v \<longleftrightarrow> (\<exists>x. r = Inr x \<and> f x = Inr v)"
  by (cases r) (simp_all add: and_then_def)

lemma try_present:
  assumes "map_of kvs ''items'' = Some (JArr (JObj cd # rest))"
    and "map_of cd ''snippet'' = Some (JObj s)"
    and "map_of cd ''statistics'' = Some (JObj st)"
    and "py_int (stat st ''subscriberCount'') = Inr n"
    and "n \<le> 50000"
  shows "get_channel_info_try (Inr (JObj kvs)) channel_id = Inr (info_dict channel_id s (JObj st), [])"
  using assms
  by (simp add: get_channel_info_try_def and_then_def py_get_def py_item_def py_first_def
      py_truthy_def info_dict_def stat_def split: option.split)

lemma try_over:
  assumes "map_of kvs ''items'' = Some (JArr (JObj cd # rest))"
    and "map_of cd ''snippet'' = Some sn"
    and "map_of cd ''statistics'' = Some (JObj st)"
    and "py_int (stat st ''subscriberCount'') = Inr n"
    and "n > 50000"
  shows "get_channel_info_try (Inr (JObj kvs)) channel_id = Inr (JObj [], [])"
  using assms
  by (simp add: get_channel_info_try_def and_then_def py_get_def py_item_def py_first_def
      py_truthy_def stat_def)

lemma try_cases:
  assumes r: "get_channel_info_try executed channel_id = Inr (info, lines)"
  shows "info = JObj [] \<or>
         (\<exists>kvs cd rest s st n. executed = Inr (JObj kvs) \<and>
           map_of kvs ''items'' = Some (JArr (JObj cd # rest)) \<and>
           map_of cd ''snippet'' = Some (JObj s) \<and> map_of cd ''statistics'' = Some (JObj st) \<and>
           py_int (stat st ''subscriberCount'') = Inr n \<and> n \<le> 50000 \<and>
           lines = [] \<and> info = info_dict channel_id s (JObj st))"
proof -
  note defs = get_channel_info_try_def and_then_def py_get_def py_item_def py_first_def
  from r obtain response where ex: "executed = Inr response"
    by (cases executed) (simp_all add: defs)
  from r ex obtain kvs where resp: "response = JObj kvs"
    by (cases response) (simp_all add: defs)
  define found where "found = (case map_of kvs ''items'' of Some x \<Rightarrow> x | None \<Rightarrow> JNull)"
  show ?thesis
  proof (cases "py_truthy found")
    case False
    with r ex resp have "info = JObj []" by (simp add: defs found_def)
    then show ?thesis by simp
  next
    case tf: True
    then obtain items where it: "map_of kvs ''items'' = Some items" and ti: "py_truthy items"
      by (cases "map_of kvs ''items''") (simp_all add: found_def py_truthy_def)
    from r ex resp it ti obtain channel_data where cd0: "py_first items = Inr channel_data"
      by (cases "py_first items")
        (simp_all add: get_channel_info_try_def and_then_def py_get_def py_item_def)
    from r ex resp it ti cd0 obtain cd where cd: "channel_data = JObj cd"
      by (cases channel_data)
        (simp_all add: get_channel_info_try_def and_then_def py_get_def py_item_def)
    from cd0 cd obtain rest where items: "items = JArr (JObj cd # rest)"
      by (cases items) (auto simp: py_first_def split: list.splits)
    from it items have it': "map_of kvs ''items'' = Some (JArr (JObj cd # rest))" by simp
    from r ex resp it ti items obtain sn where sn: "map_of cd ''snippet'' = Some sn"
      by (cases "map_of cd ''snippet''") (simp_all add: defs)
    from r ex resp it ti items sn obtain statistics where
      st0: "map_of cd ''statistics'' = Some statistics"
      by (cases "map_of cd ''statistics''") (simp_all add: defs)
    from r ex resp it ti items sn st0 obtain st where st: "statistics = JObj st"
      by (cases statistics) (simp_all add: defs)
    from st0 st have st': "map_of cd ''statistics'' = Some (JObj st)" by simp
    from r ex resp it ti items sn st0 st obtain n where
      n: "py_int (stat st ''subscriberCount'') = Inr n"
      by (cases "py_int (stat st ''subscriberCount'')") (simp_all add: defs stat_def)
    show ?thesis
    proof (cases "n \<le> 50000")
      case False
      then have "n > 50000" by simp
      from try_over[OF it' sn st' n this]
      have "get_channel_info_try (Inr (JObj kvs)) channel_id = Inr (JObj [], [])" .
      with r ex resp show ?thesis by simp
    next
      case le: True
      from r ex resp it ti items sn st0 st n le obtain s where s: "sn = JObj s"
        by (cases sn) (simp_all add: defs stat_def)
      from sn s have sn': "map_of cd ''snippet'' = Some (JObj s)" by simp
      from try_present[OF it' sn' st' n le]
      have "get_channel_info_try (Inr (JObj kvs)) channel_id
              = Inr (info_dict channel_id s (JObj st), [])" .
      with r ex resp have "lines = [] \<and> info = info_dict channel_id s (JObj st)" by simp
      with ex resp it' sn' st' n le show ?thesis by blast
    qed
  qed
qed

lemma try_truthy:
  assumes r: "get_channel_info_try executed channel_id = Inr (info, lines)" and t: "py_truthy info"
  shows "\<exists>kvs cd rest s st n. executed = Inr (JObj kvs) \<and>
           map_of kvs ''items'' = Some (JArr (JObj cd # rest)) \<and>
           map_of cd ''snippet'' = Some (JObj s) \<and> map_of cd ''statistics'' = Some (JObj st) \<and>
           py_int (stat st ''subscriberCount'') = Inr n \<and> n \<le> 50000 \<and>
           lines = [] \<and> info = info_dict channel_id s (JObj st)"
proof -
  from t have "info \<noteq> JObj []" by (auto simp: py_truthy_def)
  with try_cases[OF r] show ?thesis by blast
qed

lemma get_channel_info_effects:
  assumes "get_channel_info w channel_id eff = (info, fx1)"
  shows "info_calls fx1 = info_calls eff @ [channel_id] \<and> search_calls fx1 = search_calls eff
         \<and> (\<exists>lines. log fx1 = log eff @ lines)"
  using assms unfolding get_channel_info_def Let_def
  by (auto split: sum.splits exn.splits prod.splits)

lemma get_channel_info_truthy:
  assumes g: "get_channel_info w channel_id eff = (info, fx1)" and t: "py_truthy info"
  shows "\<exists>s st n. info = info_dict channel_id s (JObj st)
           \<and> py_int (stat st ''subscriberCount'') = Inr n \<and> n \<le> 50000"
proof (cases "get_channel_info_try (channels_list w (length (info_calls eff)) channel_id) channel_id")
  case (Inl e)
  with g have "info = JObj []"
    by (cases e) (auto simp: get_channel_info_def Let_def)
  with t show ?thesis by (simp add: py_truthy_def)
next
  case (Inr p)
  obtain i l where p: "p = (i, l)" by (cases p)
  with Inr g have "info = i" by (auto simp: get_channel_info_def Let_def)
  with Inr p t show ?thesis using try_truthy[of _ channel_id info l] by blast
qed

lemma get_channel_info_returned:
  assumes "get_channel_info_try (channels_list w (length (info_calls eff)) c) c = Inr (info, lines)"
  shows "fst (get_channel_info w c eff) = info
         \<and> log (snd (get_channel_info w c eff)) = log eff @ lines"
  using assms by (simp add: get_channel_info_def Let_def)

lemma get_channel_info_caught:
  assumes "get_channel_info_try (channels_list w (length (info_calls eff)) c) c = Inl e"
  shows "fst (get_channel_info w c eff) = JObj []
         \<and> (\<exists>msg. log (snd (get_channel_info w c eff)) = log eff @ [Error msg e])"
  using assms by (cases e) (simp_all add: get_channel_info_def Let_def)

lemma info_dict_not_empty: "info_dict c s statistics \<noteq> JObj []"
  by (simp add: info_dict_def)

lemma try_no_item:
  assumes "\<not> py_truthy (case map_of kvs ''items'' of Some x \<Rightarrow> x | None \<Rightarrow> JNull)"
  shows "get_channel_info_try (Inr (JObj kvs)) c
           = Inr (JObj [], [Warning (''No information found for channel '' @ c)])"
  using assms by (simp add: get_channel_info_try_def and_then_def py_get_def)

lemma try_transport: "get_channel_info_try (Inl e) c = Inl e"
  by (simp add: get_channel_info_try_def and_then_def)

section \<open>Shaping a record\<close>

lemma make_record_info_dict:
  "make_record channel_id (info_dict channel_id s (JObj st)) =
     and_then (contact_of (case map_of s ''description'' of Some x \<Rightarrow> x | None \<Rightarrow> JStr [])) (\<lambda>contact.
     and_then (py_int (stat st ''subscriberCount'')) (\<lambda>subscriberCount.
     and_then (py_int (stat st ''viewCount'')) (\<lambda>viewCount.
     and_then (py_int (stat st ''videoCount'')) (\<lambda>videoCount.
     Inr \<lparr> channelId = channel_id,
           name = (case map_of s ''title'' of Some x \<Rightarrow> x | None \<Rightarrow> JNull),
           url = (case map_of s ''customUrl'' of Some x \<Rightarrow> x
                  | None \<Rightarrow> JStr (''https://youtube.com/channel/'' @ channel_id)),
           country = (case map_of s ''country'' of Some x \<Rightarrow> x | None \<Rightarrow> JStr ''N/A''),
           createDate = (case map_of s ''publishedAt'' of Some x \<Rightarrow> x | None \<Rightarrow> JNull),
           subscribers = subscriberCount, totalViews = viewCount,
           totalVideos = videoCount, email = contact_info.email contact,
           website = contact_info.website contact \<rparr>))))"
  by (simp add: make_record_def info_dict_def py_get_def and_then_def stat_def split: sum.split)

lemma make_record_Inr:
  assumes "make_record channel_id (info_dict channel_id s (JObj st)) = Inr r"
  shows "channelId r = channel_id \<and> py_int (stat st ''subscriberCount'') = Inr (subscribers r)
         \<and> py_int (stat st ''viewCount'') = Inr (totalViews r)
         \<and> py_int (stat st ''videoCount'') = Inr (totalVideos r)
         \<and> name r = (case map_of s ''title'' of Some x \<Rightarrow> x | None \<Rightarrow> JNull)
         \<and> createDate r = (case map_of s ''publishedAt'' of Some x \<Rightarrow> x | None \<Rightarrow> JNull)"
  using assms unfolding make_record_info_dict and_then_Inr_iff by auto

section \<open>One item of the \<open>for\<close> loop\<close>

lemma for_items_Cons_error:
  "item_channel_id item = Inl e \<Longrightarrow> for_items w (item # rest) st = (Some e, st)"
  by simp

lemma for_items_Cons_seen:
  "item_channel_id item = Inr c \<Longrightarrow> c \<in> seen_channels st \<Longrightarrow>
     for_items w (item # rest) st = for_items w rest st"
  by simp

lemma for_items_Cons_absent:
  "item_channel_id item = Inr c \<Longrightarrow> c \<notin> seen_channels st \<Longrightarrow>
   get_channel_info w c (fx st) = (info, fx1) \<Longrightarrow> \<not> py_truthy info \<Longrightarrow>
     for_items w (item # rest) st =
       (if length (channels st) \<ge> 50 then (None, admitted c fx1 st)
        else for_items w rest (admitted c fx1 st))"
  by (simp add: admitted_def)

lemma for_items_Cons_raised:
  "item_channel_id item = Inr c \<Longrightarrow> c \<notin> seen_channels st \<Longrightarrow>
   get_channel_info w c (fx st) = (info, fx1) \<Longrightarrow> py_truthy info \<Longrightarrow>
   make_record c info = Inl e \<Longrightarrow>
     for_items w (item # rest) st = (Some e, admitted c fx1 st)"
  by (simp add: admitted_def)

lemma for_items_Cons_added:
  "item_channel_id item = Inr c \<Longrightarrow> c \<notin> seen_channels st \<Longrightarrow>
   get_channel_info w c (fx st) = (info, fx1) \<Longrightarrow> py_truthy info \<Longrightarrow>
   make_record c info = Inr r \<Longrightarrow>
     for_items w (item # rest) st =
       (if Suc (length (channels st)) \<ge> 50
        then (None, (admitted c fx1 st)\<lparr>channels := channels st @ [r]\<rparr>)
        else for_items w rest ((admitted c fx1 st)\<lparr>channels := channels st @ [r]\<rparr>))"
  by (simp add: admitted_def)

lemma for_items_invariant:
  assumes run: "for_items w items st = (res, st')"
    and init: "I st" "length (channels st) < 50"
    and admit: "\<And>st c info fx1. I st \<Longrightarrow> length (channels st) < 50 \<Longrightarrow> c \<notin> seen_channels st \<Longrightarrow>
        get_channel_info w c (fx st) = (info, fx1) \<Longrightarrow> I (admitted c fx1 st)"
    and add: "\<And>st c info fx1 r. I st \<Longrightarrow> I (admitted c fx1 st) \<Longrightarrow> length (channels st) < 50 \<Longrightarrow>
        c \<notin> seen_channels st \<Longrightarrow> get_channel_info w c (fx st) = (info, fx1) \<Longrightarrow>
        py_truthy info \<Longrightarrow> make_record c info = Inr r \<Longrightarrow>
        I ((admitted c fx1 st)\<lparr>channels := channels st @ [r]\<rparr>)"
  shows "I st' \<and> length (channels st') \<le> 50"
  using run init
proof (induction items arbitrary: st)
  case Nil
  then show ?case by simp
next
  case (Cons item rest)
  show ?case
  proof (cases "item_channel_id item")
    case (Inl e)
    with Cons.prems show ?thesis by simp
  next
    case (Inr c)
    show ?thesis
    proof (cases "c \<in> seen_channels st")
      case True
      with Inr Cons.prems have "for_items w rest st = (res, st')" by simp
      then show ?thesis using Cons.IH Cons.prems by blast
    next
      case False
      obtain info fx1 where g: "get_channel_info w c (fx st) = (info, fx1)"
        by (cases "get_channel_info w c (fx st)")
      have I2: "I (admitted c fx1 st)" using admit Cons.prems(2,3) False g by blast
      have len2: "length (channels (admitted c fx1 st)) < 50"
        using Cons.prems(3) by (simp add: admitted_def)
      show ?thesis
      proof (cases "py_truthy info")
        case no: False
        have "for_items w rest (admitted c fx1 st) = (res, st')"
          using for_items_Cons_absent[OF Inr False g no, of rest] Cons.prems(1,3) by simp
        then show ?thesis using Cons.IH I2 len2 by blast
      next
        case yes: True
        show ?thesis
        proof (cases "make_record c info")
          case (Inl e)
          have "st' = admitted c fx1 st"
            using for_items_Cons_raised[OF Inr False g yes Inl, of rest] Cons.prems(1) by simp
          with I2 len2 show ?thesis by simp
        next
          case r: (Inr r)
          let ?st3 = "(admitted c fx1 st)\<lparr>channels := channels st @ [r]\<rparr>"
          have I3: "I ?st3" using add Cons.prems(2) I2 Cons.prems(3) False g yes r by blast
          note eq = for_items_Cons_added[OF Inr False g yes r, of rest]
          show ?thesis
          proof (cases "Suc (length (channels st)) \<ge> 50")
            case True
            with eq Cons.prems(1) have "st' = ?st3" by simp
            with I3 Cons.prems(3) show ?thesis by simp
          next
            case False
            with eq Cons.prems(1) have "for_items w rest ?st3 = (res, st')" by simp
            moreover have "length (channels ?st3) < 50" using False by simp
            ultimately show ?thesis using Cons.IH I3 by blast
          qed
        qed
      qed
    qed
  qed
qed

lemma for_items_search_calls:
  assumes "for_items w items st = (res, st')"
  shows "search_calls (fx st') = search_calls (fx st)"
  using assms
proof (induction items arbitrary: st)
  case Nil
  then show ?case by simp
next
  case (Cons item rest)
  show ?case
  proof (cases "item_channel_id item")
    case (Inl e)
    with Cons.prems show ?thesis by simp
  next
    case (Inr c)
    show ?thesis
    proof (cases "c \<in> seen_channels st")
      case True
      with Inr Cons.prems Cons.IH show ?thesis by simp
    next
      case False
      obtain info fx1 where g: "get_channel_info w c (fx st) = (info, fx1)"
        by (cases "get_channel_info w c (fx st)")
      then have sc: "search_calls fx1 = search_calls (fx st)"
        using get_channel_info_effects by blast
      have a: "search_calls (fx (admitted c fx1 st)) = search_calls (fx st)"
        using sc by (simp add: admitted_def)
      show ?thesis
      proof (cases "py_truthy info")
        case no: False
        show ?thesis
          using for_items_Cons_absent[OF Inr False g no, of rest] Cons.prems Cons.IH a
          by (auto split: if_splits)
      next
        case yes: True
        show ?thesis
        proof (cases "make_record c info")
          case (Inl e)
          show ?thesis
            using for_items_Cons_raised[OF Inr False g yes Inl, of rest] Cons.prems a by simp
        next
          case r: (Inr r)
          have b: "search_calls (fx ((admitted c fx1 st)\<lparr>channels := channels st @ [r]\<rparr>)) = search_calls (fx st)"
            using a by simp
          show ?thesis
            using for_items_Cons_added[OF Inr False g yes r, of rest] Cons.prems Cons.IH b
            by (auto split: if_splits)
        qed
      qed
    qed
  qed
qed

lemma for_items_all_seen:
  assumes "\<forall>item \<in> set items. \<exists>c. item_channel_id item = Inr c \<and> c \<in> seen_channels st"
  shows "for_items w items st = (None, st)"
  using assms by (induction items) auto

lemma for_items_completed_seen:
  assumes "for_items w items st = (None, st')" "length (channels st') < 50"
  shows "seen_channels st \<subseteq> seen_channels st'
         \<and> (\<forall>item \<in> set items. \<exists>c. item_channel_id item = Inr c \<and> c \<in> seen_channels st')"
  using assms
proof (induction items arbitrary: st)
  case Nil
  then show ?case by simp
next
  case (Cons item rest)
  show ?case
  proof (cases "item_channel_id item")
    case (Inl e)
    with Cons.prems show ?thesis by simp
  next
    case (Inr c)
    show ?thesis
    proof (cases "c \<in> seen_channels st")
      case True
      with Inr Cons.prems have "for_items w rest st = (None, st')" by simp
      from Cons.IH[OF this Cons.prems(2)] True Inr show ?thesis by auto
    next
      case False
      obtain info fx1 where g: "get_channel_info w c (fx st) = (info, fx1)"
        by (cases "get_channel_info w c (fx st)")
      have sub: "seen_channels st \<subseteq> seen_channels (admitted c fx1 st)"
        and cin: "c \<in> seen_channels (admitted c fx1 st)"
        by (auto simp: admitted_def)
      show ?thesis
      proof (cases "py_truthy info")
        case no: False
        have "length (channels st) < 50"
        proof (rule ccontr)
          assume "\<not> length (channels st) < 50"
          with for_items_Cons_absent[OF Inr False g no, of rest] Cons.prems(1)
          have "st' = admitted c fx1 st" by simp
          with Cons.prems(2) \<open>\<not> length (channels st) < 50\<close> show False by (simp add: admitted_def)
        qed
        with for_items_Cons_absent[OF Inr False g no, of rest] Cons.prems(1)
        have "for_items w rest (admitted c fx1 st) = (None, st')" by simp
        from Cons.IH[OF this Cons.prems(2)] sub cin Inr show ?thesis by auto
      next
        case yes: True
        show ?thesis
        proof (cases "make_record c info")
          case (Inl e)
          with for_items_Cons_raised[OF Inr False g yes Inl, of rest] Cons.prems(1)
          show ?thesis by simp
        next
          case r: (Inr r)
          let ?st3 = "(admitted c fx1 st)\<lparr>channels := channels st @ [r]\<rparr>"
          note eq = for_items_Cons_added[OF Inr False g yes r, of rest]
          have "\<not> Suc (length (channels st)) \<ge> 50"
          proof
            assume a: "Suc (length (channels st)) \<ge> 50"
            with eq Cons.prems(1) have "st' = ?st3" by simp
            with Cons.prems(2) a show False by simp
          qed
          with eq Cons.prems(1) have "for_items w rest ?st3 = (None, st')" by simp
          from Cons.IH[OF this Cons.prems(2)] sub cin Inr show ?thesis by (auto simp: admitted_def)
        qed
      qed
    qed
  qed
qed

section \<open>The rounds and the loop agree\<close>

lemma while_rounds_ended:
  "while_rounds n w cc st = Inl r \<Longrightarrow> while_loop w cc st = Some r"
proof (induction n arbitrary: st)
  case 0
  then show ?case by simp
next
  case (Suc n)
  show ?case
  proof (cases "length (channels st) < 50")
    case False
    with Suc.prems show ?thesis by (subst while_loop.simps) auto
  next
    case True
    show ?thesis
    proof (cases "search_list w (search_calls (fx st)) cc")
      case (Inl e)
      with True Suc.prems show ?thesis by (subst while_loop.simps) auto
    next
      case (Inr response)
      obtain res st' where f: "for_items w (response_items response) (searched st) = (res, st')"
        by (cases "for_items w (response_items response) (searched st)")
      show ?thesis
      proof (cases res)
        case None
        with True Inr f Suc.prems have "while_rounds n w cc st' = Inl r" by simp
        then have "while_loop w cc st' = Some r" by (rule Suc.IH)
        with True Inr f None show ?thesis by (subst while_loop.simps) simp
      next
        case (Some e)
        with True Inr f Suc.prems have "r = (Some e, st')" by simp
        with True Inr f Some show ?thesis by (subst while_loop.simps) simp
      qed
    qed
  qed
qed

lemma while_loop_rounds:
  "while_loop w cc st = Some r \<Longrightarrow> \<exists>n. while_rounds n w cc st = Inl r"
proof (induction rule: while_loop.raw_induct[rotated 1, consumes 1])
  case (1 loop w cc st r)
  show ?case
  proof (cases "length (channels st) < 50")
    case False
    with 1(2) have "while_rounds (Suc 0) w cc st = Inl r" by simp
    then show ?thesis by blast
  next
    case True
    show ?thesis
    proof (cases "search_list w (search_calls (fx st)) cc")
      case (Inl e)
      with True 1(2) have "while_rounds (Suc 0) w cc st = Inl r" by simp
      then show ?thesis by blast
    next
      case (Inr response)
      obtain res st' where f: "for_items w (response_items response) (searched st) = (res, st')"
        by (cases "for_items w (response_items response) (searched st)")
      show ?thesis
      proof (cases res)
        case None
        with True Inr f 1(2) have "loop w cc st' = Some r" by simp
        then obtain n where "while_rounds n w cc st' = Inl r" using 1(1) by blast
        with True Inr f None have "while_rounds (Suc n) w cc st = Inl r" by simp
        then show ?thesis by blast
      next
        case (Some e)
        with True Inr f 1(2) have "r = (Some e, st')" by simp
        with True Inr f Some have "while_rounds (Suc 0) w cc st = Inl r" by simp
        then show ?thesis by blast
      qed
    qed
  qed
qed

lemma while_loop_None:
  assumes "\<And>n. \<exists>st'. while_rounds n w cc st = Inr st'"
  shows "while_loop w cc st = None"
proof (cases "while_loop w cc st")
  case None then show ?thesis .
next
  case (Some r)
  then obtain n where "while_rounds n w cc st = Inl r" using while_loop_rounds by blast
  with assms[of n] show ?thesis by auto
qed

lemma get_channels_returned:
  assumes "get_channels_from_country w cc = Some (out, eff)"
  shows "\<exists>n res st. while_rounds n w cc start = Inl (res, st)
           \<and> (case res of None \<Rightarrow> out = channels st \<and> eff = fx st
               | Some e \<Rightarrow> out = [] \<and> eff = (fx st)\<lparr>log := log (fx st) @
                   [Error (''Error getting channels from '' @ cc @ '': '') e]\<rparr>)"
proof -
  from assms obtain res st where l: "while_loop w cc start = Some (res, st)"
    by (cases "while_loop w cc start") (auto simp: get_channels_from_country_def)
  then obtain n where n: "while_rounds n w cc start = Inl (res, st)"
    using while_loop_rounds by blast
  from assms l have "(case res of None \<Rightarrow> out = channels st \<and> eff = fx st
               | Some e \<Rightarrow> out = [] \<and> eff = (fx st)\<lparr>log := log (fx st) @
                   [Error (''Error getting channels from '' @ cc @ '': '') e]\<rparr>)"
    by (cases res) (auto simp: get_channels_from_country_def)
  with n show ?thesis by blast
qed

section \<open>Invariants of the loop\<close>

lemma while_rounds_invariant:
  assumes init: "I st" "length (channels st) \<le> 50"
    and search: "\<And>st. I st \<Longrightarrow> I (searched st)"
    and admit: "\<And>st c info fx1. I st \<Longrightarrow> length (channels st) < 50 \<Longrightarrow> c \<notin> seen_channels st \<Longrightarrow>
        get_channel_info w c (fx st) = (info, fx1) \<Longrightarrow> I (admitted c fx1 st)"
    and add: "\<And>st c info fx1 r. I st \<Longrightarrow> I (admitted c fx1 st) \<Longrightarrow> length (channels st) < 50 \<Longrightarrow>
        c \<notin> seen_channels st \<Longrightarrow> get_channel_info w c (fx st) = (info, fx1) \<Longrightarrow>
        py_truthy info \<Longrightarrow> make_record c info = Inr r \<Longrightarrow>
        I ((admitted c fx1 st)\<lparr>channels := channels st @ [r]\<rparr>)"
  shows "I (state_of (while_rounds n w cc st)) \<and> length (channels (state_of (while_rounds n w cc st))) \<le> 50"
  using init
proof (induction n arbitrary: st)
  case 0
  then show ?case by (simp add: state_of_def)
next
  case (Suc n)
  show ?case
  proof (cases "length (channels st) < 50")
    case False
    with Suc.prems show ?thesis by (simp add: state_of_def)
  next
    case True
    have Is: "I (searched st)" using search Suc.prems(1) by blast
    have ls: "length (channels (searched st)) < 50" using True by (simp add: searched_def)
    show ?thesis
    proof (cases "search_list w (search_calls (fx st)) cc")
      case (Inl e)
      with True Is ls show ?thesis by (simp add: state_of_def)
    next
      case (Inr response)
      obtain res st' where f: "for_items w (response_items response) (searched st) = (res, st')"
        by (cases "for_items w (response_items response) (searched st)")
      have st': "I st' \<and> length (channels st') \<le> 50"
        by (rule for_items_invariant[OF f Is ls admit add])
      show ?thesis
      proof (cases res)
        case None
        with True Inr f have "while_rounds (Suc n) w cc st = while_rounds n w cc st'" by simp
        then show ?thesis using Suc.IH st' by simp
      next
        case (Some e)
        with True Inr f st' show ?thesis by (simp add: state_of_def)
      qed
    qed
  qed
qed

lemma records_ok_rounds:
  "records_ok (state_of (while_rounds n w cc start))
   \<and> length (channels (state_of (while_rounds n w cc start))) \<le> 50"
proof (rule while_rounds_invariant)
  show "records_ok start" by (simp add: records_ok_def start_def)
  show "length (channels start) \<le> 50" by (simp add: start_def)
next
  fix st assume "records_ok st"
  then show "records_ok (searched st)" by (simp add: records_ok_def searched_def)
next
  fix st c info fx1
  assume "records_ok st"
  then show "records_ok (admitted c fx1 st)" by (auto simp: records_ok_def admitted_def)
next
  fix st c info fx1 r
  assume a0: "records_ok st" and a: "records_ok (admitted c fx1 st)" and c: "c \<notin> seen_channels st"
    and g: "get_channel_info w c (fx st) = (info, fx1)" and t: "py_truthy info"
    and m: "make_record c info = Inr r"
  from get_channel_info_truthy[OF g t] obtain s stt n where
    i: "info = info_dict c s (JObj stt)" and n: "py_int (stat stt ''subscriberCount'') = Inr n" "n \<le> 50000"
    by blast
  from make_record_Inr[OF m[unfolded i]] n have r: "channelId r = c" "subscribers r \<le> 50000" by auto
  from a0 c have "c \<notin> channelId ` set (channels st)" by (auto simp: records_ok_def)
  with a r show "records_ok ((admitted c fx1 st)\<lparr>channels := channels st @ [r]\<rparr>)"
    by (auto simp: records_ok_def admitted_def)
qed

lemma calls_ok_rounds:
  "calls_ok (state_of (while_rounds n w cc start))"
proof -
  have "calls_ok (state_of (while_rounds n w cc start))
      \<and> length (channels (state_of (while_rounds n w cc start))) \<le> 50"
  proof (rule while_rounds_invariant)
    show "calls_ok start" by (simp add: calls_ok_def start_def no_effects_def)
    show "length (channels start) \<le> 50" by (simp add: start_def)
  next
    fix st assume "calls_ok st"
    then show "calls_ok (searched st)" by (simp add: calls_ok_def searched_def)
  next
    fix st c info fx1
    assume a: "calls_ok st" and c: "c \<notin> seen_channels st"
      and g: "get_channel_info w c (fx st) = (info, fx1)"
    from get_channel_info_effects[OF g] have "info_calls fx1 = info_calls (fx st) @ [c]" by simp
    with a c show "calls_ok (admitted c fx1 st)" by (auto simp: calls_ok_def admitted_def)
  next
    fix st c info fx1 r
    assume "calls_ok (admitted c fx1 st)"
    then show "calls_ok ((admitted c fx1 st)\<lparr>channels := channels st @ [r]\<rparr>)"
      by (simp add: calls_ok_def admitted_def)
  qed
  then show ?thesis by simp
qed

section \<open>A search that repeats itself, a search that fails\<close>

lemma stuck_rounds:
  assumes s: "\<And>n. search_list w n cc = Inr response"
    and seen: "\<forall>item \<in> set (response_items response). \<exists>c. item_channel_id item = Inr c \<and> c \<in> seen_channels st"
    and len: "length (channels st) < 50"
  shows "\<exists>st'. while_rounds n w cc st = Inr st'"
  using seen len
proof (induction n arbitrary: st)
  case 0
  then show ?case by simp
next
  case (Suc n)
  have seen': "\<forall>item \<in> set (response_items response). \<exists>c. item_channel_id item = Inr c \<and> c \<in> seen_channels (searched st)"
    using Suc.prems(1) by (simp add: searched_def)
  have len': "length (channels (searched st)) < 50" using Suc.prems(2) by (simp add: searched_def)
  have "for_items w (response_items response) (searched st) = (None, searched st)"
    using seen' by (rule for_items_all_seen)
  then have "while_rounds (Suc n) w cc st = while_rounds n w cc (searched st)"
    using Suc.prems(2) s by simp
  then show ?case using Suc.IH[OF seen' len'] by simp
qed

lemma constant_search_diverges:
  assumes s: "\<And>n. search_list w n cc = Inr response"
    and f: "fst (for_items w (response_items response) (searched start)) = None"
    and l: "length (channels (snd (for_items w (response_items response) (searched start)))) < 50"
  shows "get_channels_from_country w cc = None"
proof -
  obtain st1 where f1: "for_items w (response_items response) (searched start) = (None, st1)"
    using f by (cases "for_items w (response_items response) (searched start)") auto
  with l have l1: "length (channels st1) < 50" by simp
  from for_items_completed_seen[OF f1 l1]
  have seen: "\<forall>item \<in> set (response_items response). \<exists>c. item_channel_id item = Inr c \<and> c \<in> seen_channels st1"
    by blast
  have "while_loop w cc st1 = None"
    by (rule while_loop_None) (rule stuck_rounds[OF s seen l1])
  moreover have "while_loop w cc start = while_loop w cc st1"
    using s f1 by (subst while_loop.simps) (simp add: start_def)
  ultimately show ?thesis by (simp add: get_channels_from_country_def)
qed

lemma while_loop_search_raises:
  assumes e: "search_list w k cc = Inl e"
    and le: "search_calls (fx st) \<le> k"
  shows "\<exists>res st'. while_loop w cc st = Some (res, st') \<and> search_calls (fx st') \<le> Suc k
           \<and> (search_calls (fx st') = Suc k \<longrightarrow> res = Some e)"
  using le
proof (induction "k - search_calls (fx st)" arbitrary: st rule: less_induct)
  case less
  show ?case
  proof (cases "length (channels st) < 50")
    case False
    then have "while_loop w cc st = Some (None, st)" by (subst while_loop.simps) simp
    with less.prems show ?thesis by simp
  next
    case True
    have sc: "search_calls (fx (searched st)) = Suc (search_calls (fx st))"
      by (simp add: searched_def)
    show ?thesis
    proof (cases "search_list w (search_calls (fx st)) cc")
      case (Inl e')
      with True have r: "while_loop w cc st = Some (Some e', searched st)"
        by (subst while_loop.simps) simp
      show ?thesis
      proof (cases "search_calls (fx st) = k")
        case True
        with Inl e have "e' = e" by simp
        with r sc True show ?thesis by simp
      next
        case False
        with less.prems have "search_calls (fx st) < k" by simp
        with r sc show ?thesis by simp
      qed
    next
      case (Inr response)
      with e have ne: "search_calls (fx st) \<noteq> k" by auto
      with less.prems have lt: "search_calls (fx st) < k" by simp
      obtain res st1 where f: "for_items w (response_items response) (searched st) = (res, st1)"
        by (cases "for_items w (response_items response) (searched st)")
      have sc1: "search_calls (fx st1) = Suc (search_calls (fx st))"
        using for_items_search_calls[OF f] sc by simp
      show ?thesis
      proof (cases res)
        case (Some e')
        with True Inr f have "while_loop w cc st = Some (Some e', st1)"
          by (subst while_loop.simps) simp
        with sc1 lt show ?thesis by simp
      next
        case None
        with True Inr f have eq: "while_loop w cc st = while_loop w cc st1"
          by (subst while_loop.simps) simp
        have "k - search_calls (fx st1) < k - search_calls (fx st)" using sc1 lt by simp
        moreover have "search_calls (fx st1) \<le> k" using sc1 lt by simp
        ultimately show ?thesis using less.hyps eq by simp
      qed
    qed
  qed
qed

section \<open>The example worlds, evaluated\<close>

lemma same3_first_page:
  "fst (for_items same3_world (response_items (page [''c1'', ''c2'', ''c3''])) (searched start)) = None
   \<and> length (channels (snd (for_items same3_world (response_items (page [''c1'', ''c2'', ''c3''])) (searched start)))) = 3"
  by code_simp

lemma same3_two_rounds:
  "map channelId (channels (state_of (while_rounds 2 same3_world region start))) = [''c1'', ''c2'', ''c3'']"
  by code_simp

lemma failing_world_run:
  "map_option (\<lambda>(out, eff). (out, search_calls eff, info_calls eff, last (log eff)))
     (get_channels_from_country failing_world ''US'')
   = Some ([], 2, [''c1'', ''c2'', ''c3''],
           Error ''Error getting channels from US: '' (HttpError ''quota exceeded''))"
  by code_simp

lemma failing_world_first_page:
  "map subscribers (channels (state_of (while_rounds 1 failing_world ''US'' start))) = [100, 100, 100]"
  by code_simp

lemma rejecting_world_rounds:
  "info_calls (fx (state_of (while_rounds 3 rejecting_world ''US'' start))) = [''c1'']
   \<and> search_calls (fx (state_of (while_rounds 3 rejecting_world ''US'' start))) = 3
   \<and> channels (state_of (while_rounds 3 rejecting_world ''US'' start)) = []"
  by code_simp

lemma offline_world_info:
  "get_channel_info offline_world ''c1'' no_effects
     = (JObj [], \<lparr> log = [Error ''HTTP error getting channel info for c1: '' (HttpError ''timeout'')],
                   search_calls = 0, info_calls = [''c1''] \<rparr>)"
  by code_simp

lemma same3_info:
  "make_record ''c1'' (fst (get_channel_info same3_world ''c1'' no_effects))
     = Inr \<lparr> channelId = ''c1'', name = JStr ''T'', url = JStr ''https://youtube.com/channel/c1'',
             country = JStr ''N/A'', createDate = JNull, subscribers = 100, totalViews = 2000,
             totalVideos = 7, email = ''a@b.com'', website = ''N/A'' \<rparr>"
  by code_simp

lemma small_channel_shape:
  "channels_list same3_world (length (info_calls no_effects)) ''c1''
     = Inr (JObj [(''items'', JArr [JObj [(''snippet'', JObj [(''title'', JStr ''T''), (''description'', JStr ''mail a@b.com'')]),
          (''statistics'', JObj [(''subscriberCount'', JStr ''100''), (''viewCount'', JStr ''2000''),
              (''videoCount'', JStr ''7'')])]])])"
  by (simp add: same3_world_def small_channel_def channel_response_def)

lemma rejecting_shape:
  "channels_list rejecting_world (length (info_calls no_effects)) ''c1''
     = Inr (JObj [(''items'', JArr [JObj [(''snippet'', JObj []),
          (''statistics'', JObj [(''subscriberCount'', JStr ''60000'')])]])])"
  by (simp add: rejecting_world_def channel_response_def)

lemma py_int_examples:
  "py_int (stat [(''subscriberCount'', JStr ''100''), (''viewCount'', JStr ''2000''), (''videoCount'', JStr ''7'')] ''subscriberCount'') = Inr 100"
  "py_int (stat [(''subscriberCount'', JStr ''60000'')] ''subscriberCount'') = Inr 60000"
  by code_simp+

lemma offline_try:
  "get_channel_info_try (channels_list offline_world (length (info_calls no_effects)) ''c1'') ''c1''
     = Inl (HttpError ''timeout'')"
  by (simp add: offline_world_def get_channel_info_try_def and_then_def)

section \<open>The inspection of one channel\<close>

text \<open>
  C8. \<open>get_channel_info\<close> always returns a dictionary and never raises. The
  dictionary is empty exactly when the response is not one whose first item has a
  dictionary snippet, dictionary statistics and a subscriber count that converts to an
  integer of at most 50000. So it is empty when the response has no item (a warning is
  logged), when the subscriber count exceeds 50000 (nothing is logged), and when the
  request or the reading of the response raises: a raised exception, of the transport
  or of the shape of the response, is caught and logged as an error. After an empty
  result the loop over the hits goes on with the next hit.
\<close>

theorem get_channel_info_absent_iff:
  "(fst (get_channel_info w c eff) = JObj [] \<longleftrightarrow>
      \<not> (\<exists>kvs cd rest s st n.
            channels_list w (length (info_calls eff)) c = Inr (JObj kvs)
            \<and> map_of kvs ''items'' = Some (JArr (JObj cd # rest))
            \<and> map_of cd ''snippet'' = Some (JObj s) \<and> map_of cd ''statistics'' = Some (JObj st)
            \<and> py_int (stat st ''subscriberCount'') = Inr n \<and> n \<le> 50000))
   \<and> (channels_list w (length (info_calls eff)) c = Inr (JObj kvs)
        \<and> \<not> py_truthy (case map_of kvs ''items'' of Some x \<Rightarrow> x | None \<Rightarrow> JNull)
       \<longrightarrow> fst (get_channel_info w c eff) = JObj []
           \<and> log (snd (get_channel_info w c eff))
               = log eff @ [Warning (''No information found for channel '' @ c)])
   \<and> (channels_list w (length (info_calls eff)) c = Inr (JObj kvs)
        \<and> map_of kvs ''items'' = Some (JArr (JObj cd # rest))
        \<and> map_of cd ''snippet'' = Some sn \<and> map_of cd ''statistics'' = Some (JObj st)
        \<and> py_int (stat st ''subscriberCount'') = Inr n \<and> n > 50000
       \<longrightarrow> fst (get_channel_info w c eff) = JObj []
           \<and> log (snd (get_channel_info w c eff)) = log eff)
   \<and> (channels_list w (length (info_calls eff)) c = Inl e
       \<longrightarrow> get_channel_info_try (channels_list w (length (info_calls eff)) c) c = Inl e)
   \<and> (get_channel_info_try (channels_list w (length (info_calls eff)) c) c = Inl e
       \<longrightarrow> fst (get_channel_info w c eff) = JObj []
           \<and> (\<exists>msg. log (snd (get_channel_info w c eff)) = log eff @ [Error msg e]))
   \<and> (item_channel_id item = Inr c \<and> c \<notin> seen_channels st0 \<and> length (channels st0) < 50
        \<and> fst (get_channel_info w c (fx st0)) = JObj []
       \<longrightarrow> for_items w (item # items) st0
             = for_items w items (admitted c (snd (get_channel_info w c (fx st0))) st0))"
proof -
  let ?ex = "channels_list w (length (info_calls eff)) c"
  let ?shape = "\<exists>kvs cd rest s st n. ?ex = Inr (JObj kvs)
            \<and> map_of kvs ''items'' = Some (JArr (JObj cd # rest))
            \<and> map_of cd ''snippet'' = Some (JObj s) \<and> map_of cd ''statistics'' = Some (JObj st)
            \<and> py_int (stat st ''subscriberCount'') = Inr n \<and> n \<le> 50000"
  have A: "fst (get_channel_info w c eff) = JObj [] \<longleftrightarrow> \<not> ?shape"
  proof
    assume absent: "fst (get_channel_info w c eff) = JObj []"
    show "\<not> ?shape"
    proof
      assume ?shape
      then obtain kvs cd rest s st n where sh: "?ex = Inr (JObj kvs)"
        "map_of kvs ''items'' = Some (JArr (JObj cd # rest))"
        "map_of cd ''snippet'' = Some (JObj s)" "map_of cd ''statistics'' = Some (JObj st)"
        "py_int (stat st ''subscriberCount'') = Inr n" "n \<le> 50000" by blast
      from try_present[OF sh(2-6), of c] sh(1)
      have "get_channel_info_try ?ex c = Inr (info_dict c s (JObj st), [])" by simp
      from get_channel_info_returned[OF this] absent show False
        using info_dict_not_empty by metis
    qed
  next
    assume ns: "\<not> ?shape"
    show "fst (get_channel_info w c eff) = JObj []"
    proof (cases "get_channel_info_try ?ex c")
      case (Inl e)
      from get_channel_info_caught[OF this] show ?thesis by simp
    next
      case (Inr p)
      obtain info lines where p: "p = (info, lines)" by (cases p)
      from try_cases[OF Inr[unfolded p]] ns have "info = JObj []" by blast
      with get_channel_info_returned[OF Inr[unfolded p]] show ?thesis by simp
    qed
  qed
  have B: "?ex = Inr (JObj kvs)
        \<and> \<not> py_truthy (case map_of kvs ''items'' of Some x \<Rightarrow> x | None \<Rightarrow> JNull)
       \<longrightarrow> fst (get_channel_info w c eff) = JObj []
           \<and> log (snd (get_channel_info w c eff))
               = log eff @ [Warning (''No information found for channel '' @ c)]"
  proof
    assume a: "?ex = Inr (JObj kvs)
        \<and> \<not> py_truthy (case map_of kvs ''items'' of Some x \<Rightarrow> x | None \<Rightarrow> JNull)"
    then have "get_channel_info_try ?ex c
        = Inr (JObj [], [Warning (''No information found for channel '' @ c)])"
      using try_no_item[of kvs c] by simp
    from get_channel_info_returned[OF this] show "fst (get_channel_info w c eff) = JObj []
           \<and> log (snd (get_channel_info w c eff))
               = log eff @ [Warning (''No information found for channel '' @ c)]" .
  qed
  have C: "?ex = Inr (JObj kvs)
        \<and> map_of kvs ''items'' = Some (JArr (JObj cd # rest))
        \<and> map_of cd ''snippet'' = Some sn \<and> map_of cd ''statistics'' = Some (JObj st)
        \<and> py_int (stat st ''subscriberCount'') = Inr n \<and> n > 50000
       \<longrightarrow> fst (get_channel_info w c eff) = JObj []
           \<and> log (snd (get_channel_info w c eff)) = log eff"
  proof
    assume a: "?ex = Inr (JObj kvs)
        \<and> map_of kvs ''items'' = Some (JArr (JObj cd # rest))
        \<and> map_of cd ''snippet'' = Some sn \<and> map_of cd ''statistics'' = Some (JObj st)
        \<and> py_int (stat st ''subscriberCount'') = Inr n \<and> n > 50000"
    then have "get_channel_info_try ?ex c = Inr (JObj [], [])"
      using try_over[of kvs cd rest sn st n c] by simp
    from get_channel_info_returned[OF this]
    show "fst (get_channel_info w c eff) = JObj [] \<and> log (snd (get_channel_info w c eff)) = log eff"
      by simp
  qed
  have D: "?ex = Inl e \<longrightarrow> get_channel_info_try ?ex c = Inl e"
    by (simp add: try_transport)
  have E: "get_channel_info_try ?ex c = Inl e
       \<longrightarrow> fst (get_channel_info w c eff) = JObj []
           \<and> (\<exists>msg. log (snd (get_channel_info w c eff)) = log eff @ [Error msg e])"
    using get_channel_info_caught by blast
  have F: "item_channel_id item = Inr c \<and> c \<notin> seen_channels st0 \<and> length (channels st0) < 50
        \<and> fst (get_channel_info w c (fx st0)) = JObj []
       \<longrightarrow> for_items w (item # items) st0
             = for_items w items (admitted c (snd (get_channel_info w c (fx st0))) st0)"
  proof
    assume a: "item_channel_id item = Inr c \<and> c \<notin> seen_channels st0 \<and> length (channels st0) < 50
        \<and> fst (get_channel_info w c (fx st0)) = JObj []"
    then have g: "get_channel_info w c (fx st0) = (JObj [], snd (get_channel_info w c (fx st0)))"
      by (metis prod.collapse)
    have no: "\<not> py_truthy (JObj [])" by (simp add: py_truthy_def)
    from a for_items_Cons_absent[OF _ _ g no, of item items]
    show "for_items w (item # items) st0
             = for_items w items (admitted c (snd (get_channel_info w c (fx st0))) st0)"
      by simp
  qed
  from A B C D E F show ?thesis by blast
qed

text \<open>
  A request that fails gives the empty result and an error line, and the loop goes on
  with the next hit; a channel with 60000 subscribers gives the empty result and no
  line; a channel with 100 subscribers gives its information.
\<close>

theorem get_channel_info_absent_iff_witness:
  "fst (get_channel_info offline_world ''c1'' no_effects) = JObj []
   \<and> log (snd (get_channel_info offline_world ''c1'' no_effects))
        = [Error ''HTTP error getting channel info for c1: '' (HttpError ''timeout'')]
   \<and> fst (get_channel_info rejecting_world ''c1'' no_effects) = JObj []
   \<and> log (snd (get_channel_info rejecting_world ''c1'' no_effects)) = []
   \<and> fst (get_channel_info same3_world ''c1'' no_effects) \<noteq> JObj []
   \<and> for_items offline_world [hit ''c1'', hit ''c2''] start
        = for_items offline_world [hit ''c2'']
            (admitted ''c1'' (snd (get_channel_info offline_world ''c1'' no_effects)) start)"
proof -
  have off: "fst (get_channel_info offline_world ''c1'' no_effects) = JObj []"
    using get_channel_info_absent_iff[of offline_world "''c1''" no_effects _ _ _ _ _ _
        "HttpError ''timeout''"] offline_try
    by blast
  have offlog: "log (snd (get_channel_info offline_world ''c1'' no_effects))
        = [Error ''HTTP error getting channel info for c1: '' (HttpError ''timeout'')]"
    using offline_world_info by simp
  have over: "fst (get_channel_info rejecting_world ''c1'' no_effects) = JObj []
      \<and> log (snd (get_channel_info rejecting_world ''c1'' no_effects)) = log no_effects"
    using get_channel_info_absent_iff[of rejecting_world "''c1''" no_effects
        "[(''items'', JArr [JObj [(''snippet'', JObj []),
          (''statistics'', JObj [(''subscriberCount'', JStr ''60000'')])]])]"
        "[(''snippet'', JObj []), (''statistics'', JObj [(''subscriberCount'', JStr ''60000'')])]"
        "[]" "JObj []" "[(''subscriberCount'', JStr ''60000'')]" 60000]
      rejecting_shape py_int_examples(2)
    by simp
  have present: "fst (get_channel_info same3_world ''c1'' no_effects) \<noteq> JObj []"
  proof -
    have "\<exists>kvs cd rest s st n.
            channels_list same3_world (length (info_calls no_effects)) ''c1'' = Inr (JObj kvs)
            \<and> map_of kvs ''items'' = Some (JArr (JObj cd # rest))
            \<and> map_of cd ''snippet'' = Some (JObj s) \<and> map_of cd ''statistics'' = Some (JObj st)
            \<and> py_int (stat st ''subscriberCount'') = Inr n \<and> n \<le> 50000"
      apply (rule exI[of _ "[(''items'', JArr [JObj [(''snippet'', JObj [(''title'', JStr ''T''), (''description'', JStr ''mail a@b.com'')]),
          (''statistics'', JObj [(''subscriberCount'', JStr ''100''), (''viewCount'', JStr ''2000''),
              (''videoCount'', JStr ''7'')])]])]"])
      apply (rule exI[of _ "[(''snippet'', JObj [(''title'', JStr ''T''), (''description'', JStr ''mail a@b.com'')]),
          (''statistics'', JObj [(''subscriberCount'', JStr ''100''), (''viewCount'', JStr ''2000''),
              (''videoCount'', JStr ''7'')])]"])
      apply (rule exI[of _ "[]"])
      apply (rule exI[of _ "[(''title'', JStr ''T''), (''description'', JStr ''mail a@b.com'')]"])
      apply (rule exI[of _ "[(''subscriberCount'', JStr ''100''), (''viewCount'', JStr ''2000''), (''videoCount'', JStr ''7'')]"])
      apply (rule exI[of _ 100])
      using small_channel_shape py_int_examples(1) apply simp
      done
    then show ?thesis
      using get_channel_info_absent_iff[of same3_world "''c1''" no_effects] by blast
  qed
  have id: "item_channel_id (hit ''c1'') = Inr ''c1''"
    by (simp add: item_channel_id_def hit_def)
  have cont: "for_items offline_world [hit ''c1'', hit ''c2''] start
        = for_items offline_world [hit ''c2'']
            (admitted ''c1'' (snd (get_channel_info offline_world ''c1'' no_effects)) start)"
    using get_channel_info_absent_iff[of offline_world "''c1''" no_effects _ _ _ _ _ _ _
        "hit ''c1''" start "[hit ''c2'']"] id off
    by (simp add: start_def)
  from off offlog over present cont show ?thesis by (simp add: no_effects_def)
qed

section \<open>Channel requests\<close>

text \<open>
  C10. In one run the channel request is made at most once for each identifier: after
  any number of rounds the identifiers requested so far are pairwise different and all
  of them are in the seen set, whatever the inspection returned; the same holds for the
  requests of a run that returns. A hit whose identifier is in the seen set is skipped
  with no request.
\<close>

theorem one_channel_request_per_id:
  "distinct (info_calls (fx (state_of (while_rounds n w cc start))))
   \<and> set (info_calls (fx (state_of (while_rounds n w cc start))))
        \<subseteq> seen_channels (state_of (while_rounds n w cc start))
   \<and> (get_channels_from_country w cc = Some (out, eff) \<longrightarrow> distinct (info_calls eff))
   \<and> (item_channel_id item = Inr c \<and> c \<in> seen_channels st
        \<longrightarrow> for_items w (item # items) st = for_items w items st)"
proof -
  have rounds: "\<And>n. calls_ok (state_of (while_rounds n w cc start))"
    by (rule calls_ok_rounds)
  have returned: "get_channels_from_country w cc = Some (out, eff) \<longrightarrow> distinct (info_calls eff)"
  proof
    assume "get_channels_from_country w cc = Some (out, eff)"
    from get_channels_returned[OF this] obtain n res st' where
      n: "while_rounds n w cc start = Inl (res, st')"
      and r: "(case res of None \<Rightarrow> out = channels st' \<and> eff = fx st'
               | Some e \<Rightarrow> out = [] \<and> eff = (fx st')\<lparr>log := log (fx st') @
                   [Error (''Error getting channels from '' @ cc @ '': '') e]\<rparr>)" by blast
    from r have "info_calls eff = info_calls (fx st')" by (cases res) auto
    moreover from rounds[of n] n have "distinct (info_calls (fx st'))"
      by (simp add: calls_ok_def state_of_def)
    ultimately show "distinct (info_calls eff)" by simp
  qed
  have skip: "item_channel_id item = Inr c \<and> c \<in> seen_channels st
        \<longrightarrow> for_items w (item # items) st = for_items w items st"
    by simp
  from rounds[of n] returned skip show ?thesis by (simp add: calls_ok_def)
qed

text \<open>
  A channel over the threshold is rejected on the first page and not requested again on
  the next two.
\<close>

theorem one_channel_request_per_id_witness:
  "info_calls (fx (state_of (while_rounds 3 rejecting_world ''US'' start))) = [''c1'']
   \<and> distinct (info_calls (fx (state_of (while_rounds 3 rejecting_world ''US'' start))))
   \<and> (\<exists>out eff. get_channels_from_country failing_world ''US'' = Some (out, eff)
         \<and> info_calls eff = [''c1'', ''c2'', ''c3''] \<and> distinct (info_calls eff))
   \<and> for_items rejecting_world (hit ''c1'' # [hit ''c1''])
        \<lparr> channels = [], seen_channels = {''c1''}, fx = no_effects \<rparr>
      = for_items rejecting_world [hit ''c1'']
        \<lparr> channels = [], seen_channels = {''c1''}, fx = no_effects \<rparr>"
proof -
  obtain out eff where run: "get_channels_from_country failing_world ''US'' = Some (out, eff)"
    and calls: "info_calls eff = [''c1'', ''c2'', ''c3'']"
    using failing_world_run by (cases "get_channels_from_country failing_world ''US''") auto
  have id: "item_channel_id (hit ''c1'') = Inr ''c1''"
    by (simp add: item_channel_id_def hit_def)
  note inst1 = one_channel_request_per_id[of 3 rejecting_world "''US''" out eff "hit ''c1''" "''c1''"
      "\<lparr> channels = [], seen_channels = {''c1''}, fx = no_effects \<rparr>" "[hit ''c1'']"]
  note inst2 = one_channel_request_per_id[of 0 failing_world "''US''" out eff]
  from inst1 inst2 run calls id rejecting_world_rounds show ?thesis by auto
qed

section \<open>A failing search\<close>

text \<open>
  C7. If some search request of the run raises (the request number \<open>k\<close>, counted from
  0), the operation returns, having made at most \<open>k + 1\<close> search requests; and if it
  made that request, it returns the empty list, whatever it had accumulated, and the
  last line of its log is an error line that carries the exception.
\<close>

theorem search_error_aborts:
  assumes "search_list w k cc = Inl e"
  shows "\<exists>out eff. get_channels_from_country w cc = Some (out, eff)
           \<and> search_calls eff \<le> Suc k
           \<and> (search_calls eff = Suc k \<longrightarrow>
                out = [] \<and> log eff \<noteq> []
                \<and> last (log eff) = Error (''Error getting channels from '' @ cc @ '': '') e)"
proof -
  have "search_calls (fx start) \<le> k" by (simp add: start_def no_effects_def)
  from while_loop_search_raises[OF assms this] obtain res st' where
    l: "while_loop w cc start = Some (res, st')" and c: "search_calls (fx st') \<le> Suc k"
    and r: "search_calls (fx st') = Suc k \<longrightarrow> res = Some e" by blast
  show ?thesis
  proof (cases res)
    case None
    with l c r show ?thesis by (auto simp: get_channels_from_country_def)
  next
    case (Some e')
    with l c r show ?thesis by (auto simp: get_channels_from_country_def)
  qed
qed

text \<open>
  The second search request fails after the first page gave three records: the result
  is empty and the log ends with the error.
\<close>

theorem search_error_aborts_witness:
  "search_list failing_world 1 ''US'' = Inl (HttpError ''quota exceeded'')
   \<and> length (channels (state_of (while_rounds 1 failing_world ''US'' start))) = 3
   \<and> (\<exists>out eff. get_channels_from_country failing_world ''US'' = Some (out, eff)
         \<and> search_calls eff = 2 \<and> out = []
         \<and> last (log eff) = Error ''Error getting channels from US: '' (HttpError ''quota exceeded''))"
proof -
  have raised: "search_list failing_world 1 ''US'' = Inl (HttpError ''quota exceeded'')"
    by (simp add: failing_world_def)
  have first: "length (channels (state_of (while_rounds 1 failing_world ''US'' start))) = 3"
    using failing_world_first_page
    by (metis length_map list.size(3,4) One_nat_def Suc_eq_plus1 numeral_3_eq_3 add_0)
  obtain out eff where run: "get_channels_from_country failing_world ''US'' = Some (out, eff)"
    and calls: "search_calls eff = 2"
    using failing_world_run by (cases "get_channels_from_country failing_world ''US''") auto
  from search_error_aborts[OF raised] run calls
  have "out = [] \<and> last (log eff) = Error ''Error getting channels from US: '' (HttpError ''quota exceeded'')"
    by simp
  with raised first run calls show ?thesis by blast
qed

section \<open>The admission threshold\<close>

text \<open>
  C4. Every record of the collection, after any number of rounds and in the list a run
  returns, has at most 50000 subscribers. A response whose statistics give a subscriber
  count above 50000 (60000, say) yields the empty result; one at or below it (100, say)
  yields the channel's information, and the record shaped from it has that number of
  subscribers.
\<close>

theorem emitted_subscribers_bounded:
  "(\<forall>r \<in> set (channels (state_of (while_rounds n w cc start))). subscribers r \<le> 50000)
   \<and> (get_channels_from_country w cc = Some (out, eff) \<longrightarrow> (\<forall>r \<in> set out. subscribers r \<le> 50000))
   \<and> (channels_list w (length (info_calls eff0)) c = Inr (JObj kvs)
        \<and> map_of kvs ''items'' = Some (JArr (JObj cd # rest))
        \<and> map_of cd ''snippet'' = Some sn \<and> map_of cd ''statistics'' = Some (JObj st)
        \<and> py_int (stat st ''subscriberCount'') = Inr k
       \<longrightarrow> (if k > 50000 then fst (get_channel_info w c eff0) = JObj []
            else \<forall>s. sn = JObj s \<longrightarrow>
                   fst (get_channel_info w c eff0) = info_dict c s (JObj st)
                   \<and> (\<forall>r. make_record c (info_dict c s (JObj st)) = Inr r \<longrightarrow> subscribers r = k)))"
proof -
  have rounds: "\<And>n. \<forall>r \<in> set (channels (state_of (while_rounds n w cc start))). subscribers r \<le> 50000"
    using records_ok_rounds[of _ w cc] by (simp add: records_ok_def)
  have returned: "get_channels_from_country w cc = Some (out, eff)
      \<longrightarrow> (\<forall>r \<in> set out. subscribers r \<le> 50000)"
  proof
    assume "get_channels_from_country w cc = Some (out, eff)"
    from get_channels_returned[OF this] obtain m res st' where
      m: "while_rounds m w cc start = Inl (res, st')"
      and r: "(case res of None \<Rightarrow> out = channels st' \<and> eff = fx st'
               | Some e \<Rightarrow> out = [] \<and> eff = (fx st')\<lparr>log := log (fx st') @
                   [Error (''Error getting channels from '' @ cc @ '': '') e]\<rparr>)" by blast
    from rounds[of m] m have "\<forall>r \<in> set (channels st'). subscribers r \<le> 50000"
      by (simp add: state_of_def)
    with r show "\<forall>r \<in> set out. subscribers r \<le> 50000" by (cases res) auto
  qed
  have threshold: "channels_list w (length (info_calls eff0)) c = Inr (JObj kvs)
        \<and> map_of kvs ''items'' = Some (JArr (JObj cd # rest))
        \<and> map_of cd ''snippet'' = Some sn \<and> map_of cd ''statistics'' = Some (JObj st)
        \<and> py_int (stat st ''subscriberCount'') = Inr k
       \<longrightarrow> (if k > 50000 then fst (get_channel_info w c eff0) = JObj []
            else \<forall>s. sn = JObj s \<longrightarrow>
                   fst (get_channel_info w c eff0) = info_dict c s (JObj st)
                   \<and> (\<forall>r. make_record c (info_dict c s (JObj st)) = Inr r \<longrightarrow> subscribers r = k))"
  proof
    assume a: "channels_list w (length (info_calls eff0)) c = Inr (JObj kvs)
        \<and> map_of kvs ''items'' = Some (JArr (JObj cd # rest))
        \<and> map_of cd ''snippet'' = Some sn \<and> map_of cd ''statistics'' = Some (JObj st)
        \<and> py_int (stat st ''subscriberCount'') = Inr k"
    show "if k > 50000 then fst (get_channel_info w c eff0) = JObj []
            else \<forall>s. sn = JObj s \<longrightarrow>
                   fst (get_channel_info w c eff0) = info_dict c s (JObj st)
                   \<and> (\<forall>r. make_record c (info_dict c s (JObj st)) = Inr r \<longrightarrow> subscribers r = k)"
    proof (cases "k > 50000")
      case True
      with a have "get_channel_info_try (channels_list w (length (info_calls eff0)) c) c
          = Inr (JObj [], [])"
        using try_over[of kvs cd rest sn st k c] by simp
      from get_channel_info_returned[OF this] True show ?thesis by simp
    next
      case False
      have "\<forall>s. sn = JObj s \<longrightarrow>
                   fst (get_channel_info w c eff0) = info_dict c s (JObj st)
                   \<and> (\<forall>r. make_record c (info_dict c s (JObj st)) = Inr r \<longrightarrow> subscribers r = k)"
      proof (intro allI impI conjI)
        fix s assume s: "sn = JObj s"
        with a False have "get_channel_info_try (channels_list w (length (info_calls eff0)) c) c
            = Inr (info_dict c s (JObj st), [])"
          using try_present[of kvs cd rest s st k c] by simp
        from get_channel_info_returned[OF this]
        show "fst (get_channel_info w c eff0) = info_dict c s (JObj st)" by simp
      next
        fix s r assume "make_record c (info_dict c s (JObj st)) = Inr r"
        from make_record_Inr[OF this] a show "subscribers r = k" by simp
      qed
      with False show ?thesis by simp
    qed
  qed
  from rounds[of n] returned threshold show ?thesis by blast
qed

text \<open>
  The three records of the first page have 100 subscribers each; the channel with 60000
  subscribers is rejected and the one with 100 is shaped into a record.
\<close>

theorem emitted_subscribers_bounded_witness:
  "map subscribers (channels (state_of (while_rounds 1 failing_world ''US'' start))) = [100, 100, 100]
   \<and> list_all (\<lambda>r. subscribers r \<le> 50000) (channels (state_of (while_rounds 1 failing_world ''US'' start)))
   \<and> (\<exists>out eff. get_channels_from_country failing_world ''US'' = Some (out, eff)
        \<and> list_all (\<lambda>r. subscribers r \<le> 50000) out)
   \<and> fst (get_channel_info rejecting_world ''c1'' no_effects) = JObj []
   \<and> (\<exists>r. make_record ''c1'' (fst (get_channel_info same3_world ''c1'' no_effects)) = Inr r
        \<and> subscribers r = 100)"
proof -
  obtain out eff where run: "get_channels_from_country failing_world ''US'' = Some (out, eff)"
    using failing_world_run by (cases "get_channels_from_country failing_world ''US''") auto
  note inv = emitted_subscribers_bounded[of 1 failing_world "''US''" out eff]
  have a: "list_all (\<lambda>r. subscribers r \<le> 50000) (channels (state_of (while_rounds 1 failing_world ''US'' start)))"
    using inv by (simp add: list_all_iff)
  have b: "list_all (\<lambda>r. subscribers r \<le> 50000) out"
    using inv run by (simp add: list_all_iff)
  have c: "fst (get_channel_info rejecting_world ''c1'' no_effects) = JObj []"
    using emitted_subscribers_bounded[of _ rejecting_world _ _ _ no_effects "''c1''"
        "[(''items'', JArr [JObj [(''snippet'', JObj []),
          (''statistics'', JObj [(''subscriberCount'', JStr ''60000'')])]])]"
        "[(''snippet'', JObj []), (''statistics'', JObj [(''subscriberCount'', JStr ''60000'')])]"
        "[]" "JObj []" "[(''subscriberCount'', JStr ''60000'')]" 60000]
      rejecting_shape py_int_examples(2)
    by simp
  have d: "\<exists>r. make_record ''c1'' (fst (get_channel_info same3_world ''c1'' no_effects)) = Inr r
        \<and> subscribers r = 100"
    using emitted_subscribers_bounded[of _ same3_world _ _ _ no_effects "''c1''"
        "[(''items'', JArr [JObj [(''snippet'', JObj [(''title'', JStr ''T''), (''description'', JStr ''mail a@b.com'')]),
          (''statistics'', JObj [(''subscriberCount'', JStr ''100''), (''viewCount'', JStr ''2000''),
              (''videoCount'', JStr ''7'')])]])]"
        "[(''snippet'', JObj [(''title'', JStr ''T''), (''description'', JStr ''mail a@b.com'')]),
          (''statistics'', JObj [(''subscriberCount'', JStr ''100''), (''viewCount'', JStr ''2000''),
              (''videoCount'', JStr ''7'')])]"
        "[]" "JObj [(''title'', JStr ''T''), (''description'', JStr ''mail a@b.com'')]"
        "[(''subscriberCount'', JStr ''100''), (''viewCount'', JStr ''2000''), (''videoCount'', JStr ''7'')]" 100]
      small_channel_shape py_int_examples(1) same3_info
    by simp
  from failing_world_first_page a b c d run show ?thesis by blast
qed

section \<open>A search that repeats itself\<close>

text \<open>
  C1. The operation is meant to return for every region. It does not when the search
  gives the same response on every request and the first pass over that response ends
  with fewer than 50 records: every later pass finds only identifiers it has seen, adds
  nothing, and the loop asks again, without end.
\<close>

theorem repeating_search_never_returns:
  assumes "\<And>n. search_list w n cc = Inr response"
    and "fst (for_items w (response_items response) (searched start)) = None"
    and "length (channels (snd (for_items w (response_items response) (searched start)))) < 50"
  shows "get_channels_from_country w cc = None"
  using assms by (rule constant_search_diverges)

text \<open>A search with no hits at all: the operation does not return.\<close>

theorem repeating_search_never_returns_witness:
  "get_channels_from_country empty_world ''US'' = None"
proof -
  have s: "\<And>n. search_list empty_world n ''US'' = Inr (page [])"
    by (simp add: empty_world_def)
  have i: "response_items (page []) = []"
    by (simp add: response_items_def page_def)
  have f: "fst (for_items empty_world (response_items (page [])) (searched start)) = None"
    by (simp add: i)
  have l: "length (channels (snd (for_items empty_world (response_items (page [])) (searched start)))) < 50"
    by (simp add: i searched_def start_def)
  from repeating_search_never_returns[of empty_world "''US''" "page []", OF s f l]
  show ?thesis .
qed

section \<open>The size of the output and its identifiers\<close>

text \<open>
  The list a run returns has at most 50 records and pairwise different identifiers, and so
  has the collection after any number of rounds. The loop ends without an exception only
  with 50 records: a run that returns gives the empty list or exactly 50 records.
\<close>

lemma output_bounded_distinct:
  "(get_channels_from_country w cc = Some (out, eff)
      \<longrightarrow> length out \<le> 50 \<and> distinct (map channelId out))
   \<and> length (channels (state_of (while_rounds n w cc start))) \<le> 50
   \<and> distinct (map channelId (channels (state_of (while_rounds n w cc start))))"
proof -
  have rounds: "\<And>n. length (channels (state_of (while_rounds n w cc start))) \<le> 50
      \<and> distinct (map channelId (channels (state_of (while_rounds n w cc start))))"
    using records_ok_rounds[of _ w cc] by (simp add: records_ok_def)
  have returned: "get_channels_from_country w cc = Some (out, eff)
      \<longrightarrow> length out \<le> 50 \<and> distinct (map channelId out)"
  proof
    assume "get_channels_from_country w cc = Some (out, eff)"
    from get_channels_returned[OF this] obtain m res st' where
      m: "while_rounds m w cc start = Inl (res, st')"
      and r: "(case res of None \<Rightarrow> out = channels st' \<and> eff = fx st'
               | Some e \<Rightarrow> out = [] \<and> eff = (fx st')\<lparr>log := log (fx st') @
                   [Error (''Error getting channels from '' @ cc @ '': '') e]\<rparr>)" by blast
    from rounds[of m] m have "length (channels st') \<le> 50 \<and> distinct (map channelId (channels st'))"
      by (simp add: state_of_def)
    with r show "length out \<le> 50 \<and> distinct (map channelId out)" by (cases res) auto
  qed
  from rounds[of n] returned show ?thesis by blast
qed

lemma while_rounds_ended_full:
  "while_rounds n w cc st = Inl (None, st') \<Longrightarrow> 50 \<le> length (channels st')"
proof (induction n arbitrary: st)
  case 0
  then show ?case by simp
next
  case (Suc n)
  show ?case
  proof (cases "length (channels st) < 50")
    case False
    with Suc.prems show ?thesis by simp
  next
    case True
    show ?thesis
    proof (cases "search_list w (search_calls (fx st)) cc")
      case (Inl e)
      with True Suc.prems show ?thesis by simp
    next
      case (Inr response)
      obtain res st1 where f: "for_items w (response_items response) (searched st) = (res, st1)"
        by (cases "for_items w (response_items response) (searched st)")
      show ?thesis
      proof (cases res)
        case None
        with True Inr f Suc.prems have "while_rounds n w cc st1 = Inl (None, st')" by simp
        then show ?thesis by (rule Suc.IH)
      next
        case (Some e)
        with True Inr f Suc.prems show ?thesis by simp
      qed
    qed
  qed
qed

lemma returned_empty_or_full:
  assumes "get_channels_from_country w cc = Some (out, eff)"
  shows "out = [] \<or> length out = 50"
proof -
  from get_channels_returned[OF assms] obtain n res st' where
    n: "while_rounds n w cc start = Inl (res, st')"
    and r: "(case res of None \<Rightarrow> out = channels st' \<and> eff = fx st'
             | Some e \<Rightarrow> out = [] \<and> eff = (fx st')\<lparr>log := log (fx st') @
                 [Error (''Error getting channels from '' @ cc @ '': '') e]\<rparr>)" by blast
  show ?thesis
  proof (cases res)
    case (Some e)
    with r show ?thesis by simp
  next
    case None
    with n have "50 \<le> length (channels st')" using while_rounds_ended_full by blast
    moreover from records_ok_rounds[of n w cc] n have "length (channels st') \<le> 50"
      by (simp add: state_of_def)
    ultimately show ?thesis using r None by simp
  qed
qed

text \<open>
  C3. With the same three channels on every page, all admitted, the operation is meant
  to return exactly three records, not six. Its collection after two pages holds exactly
  these three, so the second page adds no duplicate; but the operation does not return
  them, as it does not return: with fewer than 50 records the loop asks for the same
  page again, without end.
\<close>

theorem same3_never_returns:
  "get_channels_from_country same3_world ''US'' = None
   \<and> map channelId (channels (state_of (while_rounds 2 same3_world ''US'' start)))
       = [''c1'', ''c2'', ''c3'']"
proof -
  have "get_channels_from_country same3_world ''US'' = None"
  proof (rule constant_search_diverges)
    show "\<And>n. search_list same3_world n ''US'' = Inr (page [''c1'', ''c2'', ''c3''])"
      by (simp add: same3_world_def)
    show "fst (for_items same3_world (response_items (page [''c1'', ''c2'', ''c3''])) (searched start)) = None"
      using same3_first_page by simp
    show "length (channels (snd (for_items same3_world (response_items (page [''c1'', ''c2'', ''c3''])) (searched start)))) < 50"
      using same3_first_page by simp
  qed
  with same3_two_rounds[of "''US''"] show ?thesis by simp
qed

section \<open>The fields of a record\<close>

text \<open>
  C9. The name and the creation date of a record are meant to be strings, \<open>N/A\<close> when
  the snippet has none. For a snippet with no title and no publication date they are
  \<open>None\<close>: \<open>get_channel_info\<close> stores \<open>None\<close> under both keys, so the default \<open>N/A\<close>
  of the later lookup is never used.
\<close>

theorem missing_title_gives_null:
  "map (\<lambda>r. (name r, createDate r)) (channels (state_of (while_rounds 1 untitled_world ''US'' start)))
     = [(JNull, JNull)]"
  by code_simp

section \<open>Missing and unreadable statistics\<close>

text \<open>
  C5. A statistics field that does not convert to an integer is meant to become 0 in the
  record, as a missing one does, with no error and no aborted run. A missing field does:
  empty statistics give a record with three zeros. A view count that is not a number
  does not: the conversion raises while the record is shaped, the exception leaves both
  loops, and the operation returns the empty list with an error line. A subscriber count
  that is not a number raises inside the inspection, which returns the empty result: no
  record is made for the channel.
\<close>

theorem bad_view_count_aborts:
  "map (\<lambda>r. (subscribers r, totalViews r, totalVideos r))
       (channels (state_of (while_rounds 1 untitled_world ''US'' start))) = [(0, 0, 0)]
   \<and> get_channels_from_country bad_views_world ''US''
       = Some ([], \<lparr> log = [Error ''Error getting channels from US: '' ValueError],
                     search_calls = 1, info_calls = [''c1''] \<rparr>)
   \<and> get_channel_info
        \<lparr> search_list = (\<lambda>n cc. Inr (page [''c1''])),
          channels_list = (\<lambda>n c. Inr (channel_response (JObj [])
             (JObj [(''subscriberCount'', JStr ''many'')]))) \<rparr> ''c1'' no_effects
       = (JObj [], \<lparr> log = [Error ''Error getting channel info for c1: '' ValueError],
                     search_calls = 0, info_calls = [''c1''] \<rparr>)"
proof -
  have a: "map (\<lambda>r. (subscribers r, totalViews r, totalVideos r))
       (channels (state_of (while_rounds 1 untitled_world ''US'' start))) = [(0, 0, 0)]"
    by code_simp
  have b: "get_channels_from_country bad_views_world ''US''
       = Some ([], \<lparr> log = [Error ''Error getting channels from US: '' ValueError],
                     search_calls = 1, info_calls = [''c1''] \<rparr>)"
    by code_simp
  have c: "get_channel_info
        \<lparr> search_list = (\<lambda>n cc. Inr (page [''c1''])),
          channels_list = (\<lambda>n c. Inr (channel_response (JObj [])
             (JObj [(''subscriberCount'', JStr ''many'')]))) \<rparr> ''c1'' no_effects
       = (JObj [], \<lparr> log = [Error ''Error getting channel info for c1: '' ValueError],
                     search_calls = 0, info_calls = [''c1''] \<rparr>)"
    by code_simp
  from a b c show ?thesis by simp
qed

end
